theory Spec2Isabelle
  imports Main
begin

section \<open>Strings as the program uses them\<close>

text \<open>
  Python strings are modelled as \<open>string\<close> (lists of characters). The model covers
  texts of ASCII characters: the character classes below (digits, white space, word
  characters, case folding) are Python's classes restricted to code points below 128.
\<close>

definition code :: "char \<Rightarrow> nat" where
  "code c = of_char c"

definition is_digit :: "char \<Rightarrow> bool" where
  "is_digit c = (48 \<le> code c \<and> code c \<le> 57)"

text \<open>\<open>str.isspace\<close> on ASCII: tab, line feed, vertical tab, form feed, carriage
  return, the four separators 28 to 31, and the space.\<close>

definition is_space :: "char \<Rightarrow> bool" where
  "is_space c = ((9 \<le> code c \<and> code c \<le> 13) \<or> (28 \<le> code c \<and> code c \<le> 32))"

definition is_upper :: "char \<Rightarrow> bool" where
  "is_upper c = (65 \<le> code c \<and> code c \<le> 90)"

definition is_lower :: "char \<Rightarrow> bool" where
  "is_lower c = (97 \<le> code c \<and> code c \<le> 122)"

text \<open>The word characters of \<open>\\b\<close>: letters, digits and the underscore.\<close>

definition is_word :: "char \<Rightarrow> bool" where
  "is_word c = (is_digit c \<or> is_upper c \<or> is_lower c \<or> code c = 95)"

text \<open>\<open>str.lower\<close> on ASCII: the capital letters go to their small forms, every
  other character stays.\<close>

definition lower_char :: "char \<Rightarrow> char" where
  "lower_char c =
     (case map_of (zip ''ABCDEFGHIJKLMNOPQRSTUVWXYZ'' ''abcdefghijklmnopqrstuvwxyz'') c of
        Some l \<Rightarrow> l
      | None \<Rightarrow> c)"

definition py_lower :: "string \<Rightarrow> string" where
  "py_lower s = map lower_char s"

text \<open>\<open>s.isdigit()\<close>: at least one character, all of them digits.\<close>

definition py_isdigit :: "string \<Rightarrow> bool" where
  "py_isdigit s = (s \<noteq> [] \<and> list_all is_digit s)"

text \<open>\<open>s.startswith(p)\<close>.\<close>

fun startswith :: "string \<Rightarrow> string \<Rightarrow> bool" where
  "startswith s [] = True"
| "startswith [] (p # ps) = False"
| "startswith (c # cs) (p # ps) = (c = p \<and> startswith cs ps)"

text \<open>\<open>p in s\<close> for strings: \<open>p\<close> occurs in \<open>s\<close> as a contiguous substring.\<close>

fun py_in :: "string \<Rightarrow> string \<Rightarrow> bool" where
  "py_in p [] = (p = [])"
| "py_in p (c # cs) = (startswith (c # cs) p \<or> py_in p cs)"

text \<open>\<open>s.split(sep)\<close> for a one-character separator: never the empty list.\<close>

fun py_split :: "char \<Rightarrow> string \<Rightarrow> string list" where
  "py_split sep [] = [[]]"
| "py_split sep (c # cs) =
     (if c = sep then [] # py_split sep cs
      else (case py_split sep cs of
              [] \<Rightarrow> [[c]]
            | p # ps \<Rightarrow> (c # p) # ps))"

text \<open>\<open>s.rstrip(chars)\<close> and \<open>s.strip()\<close>.\<close>

definition py_rstrip :: "(char \<Rightarrow> bool) \<Rightarrow> string \<Rightarrow> string" where
  "py_rstrip P s = rev (dropWhile P (rev s))"

definition py_strip :: "string \<Rightarrow> string" where
  "py_strip s = py_rstrip is_space (dropWhile is_space s)"

section \<open>The URL canonicalizer\<close>

definition origin :: string where
  "origin = ''https://www.linkedin.com''"

definition view_marker :: string where
  "view_marker = ''/jobs/view/''"

text \<open>
  \<open>re.search(r"/jobs/view/([^/]+)/?$", base)\<close>. At one start position the pattern
  matches when the marker is followed by a non-empty run of characters other than the
  slash (the group, taken greedily) and then by the end of the text, by one slash and the
  end, or by one slash and a final line feed (Python's \<open>$\<close> also matches just before
  a line feed that ends the text). \<open>view_match_at\<close> gives the group for a match that
  starts at the head of its argument, and \<open>re_search_view\<close> tries the start positions
  from left to right.
\<close>

definition view_match_at :: "string \<Rightarrow> string option" where
  "view_match_at s =
     (if startswith s view_marker then
        (let r = drop (length view_marker) s;
             seg = takeWhile (\<lambda>c. c \<noteq> CHR ''/'') r;
             rest = dropWhile (\<lambda>c. c \<noteq> CHR ''/'') r
         in if seg \<noteq> [] \<and> (rest = [] \<or> rest = ''/'' \<or> rest = [CHR ''/'', CHR 0x0A])
            then Some seg else None)
      else None)"

fun re_search_view :: "string \<Rightarrow> string option" where
  "re_search_view [] = view_match_at []"
| "re_search_view (c # cs) =
     (case view_match_at (c # cs) of
        Some g \<Rightarrow> Some g
      | None \<Rightarrow> re_search_view cs)"

definition normalize_job_url :: "string \<Rightarrow> string" where
  "normalize_job_url url0 =
     (let url = (if startswith url0 ''/'' then origin @ url0 else url0);
          base = hd (py_split (CHR ''#'') (hd (py_split (CHR ''?'') url)))
      in if \<not> py_in view_marker base then base
         else (case re_search_view base of
                 None \<Rightarrow> base
               | Some g \<Rightarrow>
                   (let segment = py_rstrip (\<lambda>c. c = CHR ''/'') g;
                        job_id = (if py_isdigit segment then segment
                                  else (let parts = py_split (CHR ''-'') segment
                                        in if parts \<noteq> [] \<and> py_isdigit (last parts)
                                           then last parts else segment))
                    in origin @ view_marker @ job_id)))"

section \<open>Job records and the queried documents\<close>

record JobResult =
  url :: string
  company_name :: string

text \<open>
  The markup parser is outside the program. A job-detail document is modelled by the
  answers the program asks of it: the text and the links (target and text, for the
  anchors that have a target) of the first \<open>div\<close> with the attribute
  \<open>data-test-job-header\<close>, the same for the first \<open>div\<close> of class
  \<open>top-card-layout__entity-info\<close>, and the texts of all \<open>button\<close> and all
  \<open>a\<close> elements, each text as \<open>get_text(separator=" ", strip=True)\<close> gives it.
\<close>

record header_region =
  header_text :: string
  header_links :: "(string \<times> string) list"

record job_page =
  header_primary :: "header_region option"
  header_fallback :: "header_region option"
  buttons :: "string list"
  anchors :: "string list"

text \<open>\<open>soup.find(...) or soup.find(...)\<close>: an element found is always truthy.\<close>

definition find_header :: "job_page \<Rightarrow> header_region option" where
  "find_header page =
     (case header_primary page of
        Some h \<Rightarrow> Some h
      | None \<Rightarrow> header_fallback page)"

section \<open>The document classifier\<close>

definition THIRD_PARTY_KEYWORDS :: "string list" where
  "THIRD_PARTY_KEYWORDS = [''indeed'', ''monster'', ''glassdoor'', ''ziprecruiter'']"

text \<open>The loop over the apply buttons and links: the first hit returns \<open>False\<close>.\<close>

fun scan_apply_buttons :: "string list \<Rightarrow> bool" where
  "scan_apply_buttons [] = True"
| "scan_apply_buttons (el # els) =
     (let label = py_lower el
      in if py_in ''apply on '' label \<and> list_ex (\<lambda>k. py_in k label) THIRD_PARTY_KEYWORDS
         then False
         else scan_apply_buttons els)"

definition is_first_party_job :: "job_page \<Rightarrow> bool" where
  "is_first_party_job page =
     (case find_header page of
        Some h \<Rightarrow>
          if py_in '' via '' (py_lower (header_text h)) then False
          else scan_apply_buttons (buttons page @ anchors page)
      | None \<Rightarrow> scan_apply_buttons (buttons page @ anchors page))"

section \<open>The company-size extractor\<close>

text \<open>
  The regular expressions of the program use literals, \<open>\\s\<close>, \<open>\\d\<close>, character
  ranges, the repetitions \<open>*\<close>, \<open>+\<close>, \<open>?\<close> and \<open>{3,}\<close> on single characters, the
  word boundary \<open>\\b\<close> and one alternation of character sequences. Under
  \<open>re.IGNORECASE\<close> a literal matches both cases of its letter.
\<close>

datatype cls = Lit char | Range char char | Digit | Space

fun cls_match :: "cls \<Rightarrow> char \<Rightarrow> bool" where
  "cls_match (Lit c) x = (lower_char x = lower_char c)"
| "cls_match (Range a b) x = (code a \<le> code x \<and> code x \<le> code b)"
| "cls_match Digit x = is_digit x"
| "cls_match Space x = is_space x"

datatype item = One cls | AtLeast nat cls | Opt cls | WordB

datatype re = Item item | Alt "item list list"

definition lits :: "string \<Rightarrow> re list" where
  "lits s = map (\<lambda>c. Item (One (Lit c))) s"

text \<open>\<open>\\b\<close> between the previous character (if any) and the next one (if any).\<close>

definition word_boundary :: "char option \<Rightarrow> string \<Rightarrow> bool" where
  "word_boundary prev s =
     ((case prev of None \<Rightarrow> False | Some c \<Rightarrow> is_word c) \<noteq>
      (case s of [] \<Rightarrow> False | c # _ \<Rightarrow> is_word c))"

text \<open>
  \<open>re_match_here p prev s\<close>: the pattern \<open>p\<close> matches some prefix of \<open>s\<close>, where
  \<open>prev\<close> is the character before \<open>s\<close> in the text. A backtracking matcher finds a
  match exactly when one exists, so the result is the disjunction over its choices.
\<close>

function re_match_here :: "re list \<Rightarrow> char option \<Rightarrow> string \<Rightarrow> bool" where
  "re_match_here [] prev s = True"
| "re_match_here (Item WordB # p) prev s = (word_boundary prev s \<and> re_match_here p prev s)"
| "re_match_here (Item (One k) # p) prev [] = False"
| "re_match_here (Item (One k) # p) prev (c # cs) = (cls_match k c \<and> re_match_here p (Some c) cs)"
| "re_match_here (Item (Opt k) # p) prev [] = re_match_here p prev []"
| "re_match_here (Item (Opt k) # p) prev (c # cs) =
     ((cls_match k c \<and> re_match_here p (Some c) cs) \<or> re_match_here p prev (c # cs))"
| "re_match_here (Item (AtLeast (Suc n) k) # p) prev [] = False"
| "re_match_here (Item (AtLeast (Suc n) k) # p) prev (c # cs) =
     (cls_match k c \<and> re_match_here (Item (AtLeast n k) # p) (Some c) cs)"
| "re_match_here (Item (AtLeast 0 k) # p) prev [] = re_match_here p prev []"
| "re_match_here (Item (AtLeast 0 k) # p) prev (c # cs) =
     ((cls_match k c \<and> re_match_here (Item (AtLeast 0 k) # p) (Some c) cs)
      \<or> re_match_here p prev (c # cs))"
| "re_match_here (Alt alts # p) prev s =
     list_ex (\<lambda>a. re_match_here (map Item a @ p) prev s) alts"
  by pat_completeness auto
termination
  by (relation "measures [\<lambda>(p, prev, s). length (filter (\<lambda>r. case r of Alt _ \<Rightarrow> True | Item _ \<Rightarrow> False) p),
                          \<lambda>(p, prev, s). length s,
                          \<lambda>(p, prev, s). length p]")
     (auto simp: filter_map comp_def)

text \<open>\<open>re.search\<close>: the start positions from left to right, the end of the text included.\<close>

fun re_search_from :: "re list \<Rightarrow> char option \<Rightarrow> string \<Rightarrow> bool" where
  "re_search_from p prev [] = re_match_here p prev []"
| "re_search_from p prev (c # cs) = (re_match_here p prev (c # cs) \<or> re_search_from p (Some c) cs)"

definition re_search :: "re list \<Rightarrow> string \<Rightarrow> bool" where
  "re_search p s = re_search_from p None s"

definition employees_tail :: "re list" where
  "employees_tail = lits ''employee'' @ [Item (Opt (Lit (CHR ''s''))), Item WordB]"

text \<open>\<open>\\bA\\s*-\\s*B\\s+employees?\\b\<close> for the digit strings \<open>A\<close> and \<open>B\<close>.\<close>

definition range_pattern :: "string \<Rightarrow> string \<Rightarrow> re list" where
  "range_pattern a b =
     [Item WordB] @ lits a @ [Item (AtLeast 0 Space), Item (One (Lit (CHR ''-''))),
       Item (AtLeast 0 Space)] @ lits b @ [Item (AtLeast 1 Space)] @ employees_tail"

definition in_range_patterns :: "re list list" where
  "in_range_patterns =
     [range_pattern ''1'' ''10'',
      range_pattern ''11'' ''50'',
      [Item WordB] @ lits ''1'' @ [Item (AtLeast 1 Space)] @ lits ''employee'' @ [Item WordB],
      range_pattern ''2'' ''10'']"

definition out_of_range_patterns :: "re list list" where
  "out_of_range_patterns =
     [range_pattern ''51'' ''200'',
      range_pattern ''201'' ''500'',
      range_pattern ''501'' ''1000'',
      range_pattern ''1001'' ''5000'',
      range_pattern ''5001'' ''10000'',
      [Item WordB] @ lits ''10001'' @ [Item (AtLeast 0 Space), Item (One (Lit (CHR ''+''))),
        Item (AtLeast 0 Space)] @ employees_tail,
      [Item WordB,
       Alt [[One (Lit (CHR ''5'')), One (Range (CHR ''1'') (CHR ''9''))],
            [One (Range (CHR ''6'') (CHR ''9'')), One Digit],
            [AtLeast 3 Digit]],
       Item (AtLeast 1 Space)] @ employees_tail]"

text \<open>The two loops of \<open>_parse_employee_range_from_text\<close>, each returning at its first
  matching pattern, and the final \<open>return False\<close>.\<close>

fun first_match :: "re list list \<Rightarrow> string \<Rightarrow> bool" where
  "first_match [] text = False"
| "first_match (pat # pats) text = (if re_search pat text then True else first_match pats text)"

definition parse_employee_range_from_text :: "string \<Rightarrow> bool" where
  "parse_employee_range_from_text text =
     (if first_match in_range_patterns text then True
      else if first_match out_of_range_patterns text then False
      else False)"

text \<open>
  \<open>parse_company_profile_url_from_job_page\<close>: the first link of the header whose
  target, trimmed, contains \<open>/company/\<close> and is not empty once query and fragment are
  cut off; the empty string when there is no header or no such link.
\<close>

fun first_company_url :: "(string \<times> string) list \<Rightarrow> string" where
  "first_company_url [] = []"
| "first_company_url ((h, t) # links) =
     (let href = py_strip h
      in if \<not> py_in ''/company/'' href then first_company_url links
         else (let href' = (if startswith href ''/'' then origin @ href else href);
                   base = hd (py_split (CHR ''#'') (hd (py_split (CHR ''?'') href')))
               in if base \<noteq> [] then base else first_company_url links))"

definition parse_company_profile_url_from_job_page :: "job_page \<Rightarrow> string" where
  "parse_company_profile_url_from_job_page page =
     (case find_header page of
        None \<Rightarrow> []
      | Some h \<Rightarrow> first_company_url (header_links h))"

text \<open>\<open>parse_company_name_from_job_page\<close>: the text of the first header link to a
  company page whose text is not empty and shorter than 200 characters.\<close>

fun first_company_name :: "(string \<times> string) list \<Rightarrow> string" where
  "first_company_name [] = []"
| "first_company_name ((h, t) # links) =
     (if py_in ''/company/'' h \<and> t \<noteq> [] \<and> length t < 200 then t
      else first_company_name links)"

definition parse_company_name_from_job_page :: "job_page \<Rightarrow> string" where
  "parse_company_name_from_job_page page =
     (case find_header page of
        None \<Rightarrow> []
      | Some h \<Rightarrow> first_company_name (header_links h))"

text \<open>
  The network and the parser as the pipeline sees them: \<open>fetch_page\<close> gives the text
  of a page, or \<open>None\<close> when it raises \<open>requests.RequestException\<close>; \<open>soup\<close> is the
  parse of a job-detail text; \<open>page_text\<close> is the visible text of a company page.
\<close>

record web =
  fetch_page :: "string \<Rightarrow> string option"
  soup :: "string \<Rightarrow> job_page"
  page_text :: "string \<Rightarrow> string"

definition is_company_size_1_to_50 :: "web \<Rightarrow> string \<Rightarrow> bool" where
  "is_company_size_1_to_50 w job_page_html =
     (let company_url = parse_company_profile_url_from_job_page (soup w job_page_html)
      in if company_url = [] then False
         else (case fetch_page w company_url of
                 None \<Rightarrow> False
               | Some company_html \<Rightarrow> parse_employee_range_from_text (page_text w company_html)))"

section \<open>The filter pipeline\<close>

text \<open>The loop of \<open>filter_first_party_jobs\<close> with its list of results: a failed fetch
  of the job-detail page is caught, and the loop goes on with the next URL.\<close>

fun filter_loop :: "web \<Rightarrow> JobResult list \<Rightarrow> string list \<Rightarrow> JobResult list" where
  "filter_loop w results [] = results"
| "filter_loop w results (u # us) =
     (case fetch_page w u of
        None \<Rightarrow> filter_loop w results us
      | Some html \<Rightarrow>
          if is_first_party_job (soup w html) \<and> is_company_size_1_to_50 w html
          then filter_loop w
                 (results @ [\<lparr>url = u, company_name = parse_company_name_from_job_page (soup w html)\<rparr>])
                 us
          else filter_loop w results us)"

definition filter_first_party_jobs :: "web \<Rightarrow> string list \<Rightarrow> JobResult list" where
  "filter_first_party_jobs w job_urls = filter_loop w [] job_urls"

section \<open>The persisted store\<close>

text \<open>
  The store is the file \<open>data.csv\<close>: \<open>None\<close> when the file does not exist, otherwise
  its text. The program reads it with \<open>csv.DictReader\<close> and appends to it with
  \<open>csv.writer\<close>, both with the default dialect and with \<open>newline=""\<close>. The
  reader's limit on the length of one field (131072 characters) is outside the model.
\<close>

type_synonym store = "string option"

definition CR :: char where
  "CR = CHR 0x0D"

definition LF :: char where
  "LF = CHR 0x0A"

definition QUOTE :: char where
  "QUOTE = CHR 0x22"

text \<open>
  The reader of the \<open>csv\<close> module is a machine over the characters of the text. Outside
  a quoted field a carriage return or a line feed ends the record (a record with no
  field for an empty line), and a line feed right after a carriage return belongs to the
  same line end; inside a quoted field both are characters of the field. A quote in an
  unquoted field is an ordinary character, a doubled quote in a quoted field is one
  quote, and after the closing quote further characters go on with the field. The end of
  the text ends a record that has begun. \<open>csv_read_from\<close> gives the records read
  from a state, the field and the fields read so far (\<open>fld\<close>, \<open>flds\<close>), and the
  rest of the text.
\<close>

datatype reader_state =
  START_RECORD | START_FIELD | IN_FIELD | IN_QUOTED_FIELD | QUOTE_IN_QUOTED_FIELD | EAT_CRNL

fun csv_read_from :: "reader_state \<Rightarrow> string \<Rightarrow> string list \<Rightarrow> string \<Rightarrow> string list list" where
  "csv_read_from st fld flds [] =
     (if st = START_RECORD \<or> st = EAT_CRNL then [] else [flds @ [fld]])"
| "csv_read_from st fld flds (c # cs) =
     (if st = EAT_CRNL \<and> c = LF then csv_read_from START_RECORD [] [] cs
      else if st = IN_QUOTED_FIELD then
        (if c = QUOTE then csv_read_from QUOTE_IN_QUOTED_FIELD fld flds cs
         else csv_read_from IN_QUOTED_FIELD (fld @ [c]) flds cs)
      else if c = CR \<or> c = LF then
        (if st = START_RECORD \<or> st = EAT_CRNL then [] else flds @ [fld])
          # csv_read_from (if c = CR then EAT_CRNL else START_RECORD) [] [] cs
      else if st = QUOTE_IN_QUOTED_FIELD then
        (if c = QUOTE then csv_read_from IN_QUOTED_FIELD (fld @ [c]) flds cs
         else if c = CHR '','' then csv_read_from START_FIELD [] (flds @ [fld]) cs
         else csv_read_from IN_FIELD (fld @ [c]) flds cs)
      else if st = IN_FIELD then
        (if c = CHR '','' then csv_read_from START_FIELD [] (flds @ [fld]) cs
         else csv_read_from IN_FIELD (fld @ [c]) flds cs)
      else
        (if c = QUOTE then csv_read_from IN_QUOTED_FIELD [] flds cs
         else if c = CHR '','' then csv_read_from START_FIELD [] (flds @ [[]]) cs
         else csv_read_from IN_FIELD [c] flds cs))"

definition csv_reader :: "string \<Rightarrow> string list list" where
  "csv_reader text = csv_read_from START_RECORD [] [] text"

text \<open>
  \<open>writer.writerow\<close>: a field that contains a comma, a quote, a carriage return or a
  line feed is put in quotes with its quotes doubled; the fields are joined by commas; a
  record that would be empty although it has a field is written as two quotes; the line
  ends with carriage return and line feed.
\<close>

definition needs_quote :: "string \<Rightarrow> bool" where
  "needs_quote f = list_ex (\<lambda>c. c = CHR '','' \<or> c = QUOTE \<or> c = CR \<or> c = LF) f"

definition csv_field :: "string \<Rightarrow> string" where
  "csv_field f =
     (if needs_quote f
      then [QUOTE] @ concat (map (\<lambda>c. if c = QUOTE then [c, c] else [c]) f) @ [QUOTE]
      else f)"

fun join_fields :: "string list \<Rightarrow> string" where
  "join_fields [] = []"
| "join_fields [f] = csv_field f"
| "join_fields (f # g # fs) = csv_field f @ [CHR '',''] @ join_fields (g # fs)"

definition writerow :: "string list \<Rightarrow> string" where
  "writerow flds =
     (let rec = join_fields flds
      in (if flds \<noteq> [] \<and> rec = [] then [QUOTE, QUOTE] else rec) @ [CR, LF])"

text \<open>
  \<open>csv.DictReader\<close>: the first record gives the field names; a data row becomes the
  dictionary \<open>dict(zip(fieldnames, row))\<close>, in which a later duplicate name wins, and a
  name beyond the end of a short row gets the value \<open>None\<close>. \<open>row_get\<close> is
  \<open>row.get(k)\<close> on that dictionary. Records without fields are passed over.
\<close>

definition row_get :: "string list \<Rightarrow> string list \<Rightarrow> string \<Rightarrow> string option" where
  "row_get fieldnames row k =
     (if k \<in> set (drop (length row) fieldnames) then None
      else map_of (rev (zip fieldnames row)) k)"

text \<open>The identity a stored field stands for: trimmed, and canonicalized when it
  contains the job-detail marker.\<close>

definition stored_identity :: "string \<Rightarrow> string" where
  "stored_identity v =
     (let raw = py_strip v
      in if py_in view_marker raw then normalize_job_url raw else raw)"

definition add_row :: "string list \<Rightarrow> string list \<Rightarrow> string set \<Rightarrow> string set" where
  "add_row fieldnames row urls =
     (if row = [] then urls
      else (case row_get fieldnames row ''job_url'' of
              None \<Rightarrow> urls
            | Some v \<Rightarrow> if v = [] then urls else insert (stored_identity v) urls))"

definition load_existing_job_urls :: "store \<Rightarrow> string set" where
  "load_existing_job_urls st =
     (case st of
        None \<Rightarrow> {}
      | Some text \<Rightarrow>
          (case csv_reader text of
             [] \<Rightarrow> {}
           | fieldnames # rows \<Rightarrow> fold (add_row fieldnames) rows {}))"

definition job_row :: "JobResult \<Rightarrow> string list" where
  "job_row job = [company_name job, url job]"

text \<open>\<open>append_jobs_to_csv\<close> opens the file for appending: what it writes follows the text
  that is there, and the header is written only when there was no file.\<close>

definition append_jobs_to_csv :: "JobResult list \<Rightarrow> store \<Rightarrow> store" where
  "append_jobs_to_csv jobs st =
     (case st of
        None \<Rightarrow>
          Some (writerow [''company'', ''job_url''] @ concat (map (\<lambda>job. writerow (job_row job)) jobs))
      | Some text \<Rightarrow>
          Some (text @ concat (map (\<lambda>job. writerow (job_row job)) jobs)))"

text \<open>A character that the writer leaves unquoted.\<close>

definition plain :: "char \<Rightarrow> bool" where
  "plain c = (c \<noteq> CHR '','' \<and> c \<noteq> QUOTE \<and> c \<noteq> CR \<and> c \<noteq> LF)"

section \<open>The notifier\<close>

text \<open>
  The value \<open>resp.json()\<close> returns. Python's truth value of it decides
  \<open>not data.get("ok")\<close>; numbers are integers here.
\<close>

datatype json = JNull | JBool bool | JInt int | JStr string | JArr "json list"
  | JObj "(string \<times> json) list"

fun truthy :: "json \<Rightarrow> bool" where
  "truthy JNull = False"
| "truthy (JBool b) = b"
| "truthy (JInt n) = (n \<noteq> 0)"
| "truthy (JStr s) = (s \<noteq> [])"
| "truthy (JArr xs) = (xs \<noteq> [])"
| "truthy (JObj kvs) = (kvs \<noteq> [])"

text \<open>
  What \<open>requests.post\<close> does: it raises \<open>requests.RequestException\<close>, or it returns a
  response with a status code and a body; the body is not JSON (\<open>resp.json()\<close> raises
  the decode error of \<open>requests\<close>, a \<open>RequestException\<close>) or decodes to a value. No
  status code makes \<open>requests.post\<close> raise.
\<close>

datatype body = Undecodable | Decoded json

datatype http_result = RequestFailed | Response nat body

record slack_request =
  req_channel :: string
  req_text :: string
  req_token :: string

datatype exn = AttributeError

text \<open>
  \<open>send_job_to_slack\<close> gives its result, or the exception that leaves it, and the list
  of the requests it made. A decoded body that is not an object has no \<open>get\<close>: the
  call \<open>data.get("ok")\<close> raises \<open>AttributeError\<close>, which the \<open>except\<close> clause does
  not catch. In an object a later duplicate key wins.
\<close>

definition send_job_to_slack ::
  "(slack_request \<Rightarrow> http_result) \<Rightarrow> JobResult \<Rightarrow> string option \<Rightarrow> string
     \<Rightarrow> (exn + bool) \<times> slack_request list" where
  "send_job_to_slack post job channel_id token =
     (case channel_id of
        None \<Rightarrow> (Inr False, [])
      | Some ch \<Rightarrow>
          if token = [] \<or> ch = [] then (Inr False, [])
          else (let company = (if company_name job = [] then ''Company'' else company_name job);
                    req = \<lparr>req_channel = ch, req_text = company @ '': '' @ url job,
                           req_token = token\<rparr>
                in (case post req of
                      RequestFailed \<Rightarrow> Inr False
                    | Response status Undecodable \<Rightarrow> Inr False
                    | Response status (Decoded (JObj kvs)) \<Rightarrow>
                        (case map_of (rev kvs) ''ok'' of
                           None \<Rightarrow> Inr False
                         | Some v \<Rightarrow> Inr (truthy v))
                    | Response status (Decoded _) \<Rightarrow> Inl AttributeError,
                    [req])))"

section \<open>The coordinator\<close>

text \<open>The loop of \<open>run_once\<close> over the new jobs, giving \<open>jobs_posted_to_slack\<close> and the
  requests made, or the exception that ends the cycle.\<close>

fun post_loop ::
  "(slack_request \<Rightarrow> http_result) \<Rightarrow> string option \<Rightarrow> string \<Rightarrow> JobResult list
     \<Rightarrow> slack_request list \<Rightarrow> JobResult list
     \<Rightarrow> exn + (JobResult list \<times> slack_request list)" where
  "post_loop post channel_id slack_token posted reqs [] = Inr (posted, reqs)"
| "post_loop post channel_id slack_token posted reqs (job # jobs) =
     (if slack_token \<noteq> [] then
        (case send_job_to_slack post job channel_id slack_token of
           (Inl e, rs) \<Rightarrow> Inl e
         | (Inr True, rs) \<Rightarrow>
             post_loop post channel_id slack_token (posted @ [job]) (reqs @ rs) jobs
         | (Inr False, rs) \<Rightarrow>
             post_loop post channel_id slack_token posted (reqs @ rs) jobs)
      else post_loop post channel_id slack_token (posted @ [job]) reqs jobs)"

record cycle =
  store_after :: store
  new_jobs :: "JobResult list"
  jobs_posted_to_slack :: "JobResult list"
  requests :: "slack_request list"

text \<open>
  One cycle. \<open>jobs\<close> is what \<open>collect_recent_remote_engineer_jobs\<close> returned in this
  cycle, \<open>env_token\<close> and \<open>channel_id\<close> are the environment's \<open>SLACK_BOT_TOKEN\<close>
  and \<open>SLACK_CHANNEL_ID\<close> (\<open>None\<close> when unset). An exception leaves the store as it
  was: the file is written only after the loop.
\<close>

definition run_once ::
  "store \<Rightarrow> JobResult list \<Rightarrow> string option \<Rightarrow> string option
     \<Rightarrow> (slack_request \<Rightarrow> http_result) \<Rightarrow> exn + cycle" where
  "run_once st jobs env_token channel_id post =
     (let existing_urls = load_existing_job_urls st;
          new = filter (\<lambda>j. url j \<notin> existing_urls) jobs;
          slack_token = py_strip (case env_token of None \<Rightarrow> [] | Some t \<Rightarrow> t)
      in (case post_loop post channel_id slack_token [] [] new of
            Inl e \<Rightarrow> Inl e
          | Inr (posted, reqs) \<Rightarrow>
              Inr \<lparr>store_after = (if posted \<noteq> [] then append_jobs_to_csv posted st else st),
                   new_jobs = new,
                   jobs_posted_to_slack = posted,
                   requests = reqs\<rparr>))"

text \<open>The token of a cycle: \<open>(os.environ.get("SLACK_BOT_TOKEN") or "").strip()\<close>.\<close>

abbreviation slack_token_of :: "string option \<Rightarrow> string" where
  "slack_token_of env_token \<equiv> py_strip (case env_token of None \<Rightarrow> [] | Some t \<Rightarrow> t)"

section \<open>Example inputs\<close>

text \<open>A network with two job pages of a small first-party company, used to run the
  pipeline on concrete input.\<close>

definition example_web :: web where
  "example_web =
     \<lparr>fetch_page = map_of
        [(''https://www.linkedin.com/jobs/view/1'', ''job page''),
         (''https://www.linkedin.com/jobs/view/3'', ''job page''),
         (''https://www.linkedin.com/company/acme'', ''company page'')],
      soup = (\<lambda>html. \<lparr>header_primary =
                 Some \<lparr>header_text = ''Engineer Acme'',
                       header_links = [(''/company/acme?trk=top'', ''Acme'')]\<rparr>,
               header_fallback = None, buttons = [''Apply''], anchors = [''Acme'']\<rparr>),
      page_text = (\<lambda>html. ''Acme 11-50 employees'')\<rparr>"

text \<open>Two job records, and four ways the notification channel may answer: it
  acknowledges the first job only, it fails every request, it answers with status 500 and
  a body that says \<open>ok\<close>, it acknowledges the first job and answers every other
  request with a JSON array.\<close>

definition ok_for_first_post :: "slack_request \<Rightarrow> http_result" where
  "ok_for_first_post r =
     (if req_text r = ''Acme: https://www.linkedin.com/jobs/view/1''
      then Response 200 (Decoded (JObj [(''ok'', JBool True)]))
      else Response 200 (Decoded (JObj [(''ok'', JBool False)])))"

definition failing_post :: "slack_request \<Rightarrow> http_result" where
  "failing_post r = RequestFailed"

definition job_1 :: JobResult where
  "job_1 = \<lparr>url = ''https://www.linkedin.com/jobs/view/1'', company_name = ''Acme''\<rparr>"

definition job_2 :: JobResult where
  "job_2 = \<lparr>url = ''https://www.linkedin.com/jobs/view/2'', company_name = ''Bolt''\<rparr>"

definition server_error_ok_post :: "slack_request \<Rightarrow> http_result" where
  "server_error_ok_post r = Response 500 (Decoded (JObj [(''ok'', JBool True)]))"

definition ok_then_array_post :: "slack_request \<Rightarrow> http_result" where
  "ok_then_array_post r =
     (if req_text r = ''Acme: https://www.linkedin.com/jobs/view/1''
      then Response 200 (Decoded (JObj [(''ok'', JBool True)]))
      else Response 200 (Decoded (JArr [])))"

section \<open>Facts about the string helpers\<close>

lemma py_split_nonempty: "py_split sep s \<noteq> []"
  by (induction s) (auto split: list.splits)

lemma hd_py_split: "hd (py_split sep s) = takeWhile (\<lambda>c. c \<noteq> sep) s"
  by (induction s) (auto split: list.splits simp: py_split_nonempty)

lemma py_split_no_sep: "sep \<notin> set s \<Longrightarrow> py_split sep s = [s]"
  by (induction s) (auto split: list.splits)

lemma py_split_app: "py_split sep (a @ sep # b) = py_split sep a @ py_split sep b"
  by (induction a) (auto split: list.splits simp: py_split_nonempty)

lemma last_py_split_app: "last (py_split sep (a @ sep # b)) = last (py_split sep b)"
  by (simp add: py_split_app py_split_nonempty)

lemma startswith_iff: "startswith s p \<longleftrightarrow> (\<exists>b. s = p @ b)"
  by (induction s p rule: startswith.induct) auto

lemma py_in_iff: "py_in p s \<longleftrightarrow> (\<exists>a b. s = a @ p @ b)"
proof (induction s)
  case Nil
  then show ?case by auto
next
  case (Cons c cs)
  show ?case
  proof
    assume "py_in p (c # cs)"
    then consider "startswith (c # cs) p" | "py_in p cs" by auto
    then show "\<exists>a b. c # cs = a @ p @ b"
    proof cases
      case 1
      then obtain b where "c # cs = p @ b" by (auto simp: startswith_iff)
      then have "c # cs = [] @ p @ b" by simp
      then show ?thesis by blast
    next
      case 2
      then obtain a b where "cs = a @ p @ b" using Cons.IH by auto
      then have "c # cs = (c # a) @ p @ b" by simp
      then show ?thesis by blast
    qed
  next
    assume "\<exists>a b. c # cs = a @ p @ b"
    then obtain a b where ab: "c # cs = a @ p @ b" by auto
    show "py_in p (c # cs)"
    proof (cases a)
      case Nil
      then have "startswith (c # cs) p" using ab startswith_iff by auto
      then show ?thesis by simp
    next
      case (Cons x a')
      then have "cs = a' @ p @ b" using ab by simp
      then have "py_in p cs" using Cons.IH by auto
      then show ?thesis by simp
    qed
  qed
qed

lemma dropWhile_long:
  "length (dropWhile P b) \<le> length (dropWhile P (a @ b))"
  by (induction a) (use length_dropWhile_le[of P b] in auto)

lemma takeWhile_neq_app:
  "c \<notin> set xs \<Longrightarrow> takeWhile (\<lambda>x. x \<noteq> c) (xs @ ys) = xs @ takeWhile (\<lambda>x. x \<noteq> c) ys"
  by (induction xs) auto

lemma dropWhile_neq_app:
  "c \<notin> set xs \<Longrightarrow> dropWhile (\<lambda>x. x \<noteq> c) (xs @ ys) = dropWhile (\<lambda>x. x \<noteq> c) ys"
  by (induction xs) auto

lemma takeWhile_all: "c \<notin> set xs \<Longrightarrow> takeWhile (\<lambda>x. x \<noteq> c) xs = xs"
  by (induction xs) auto

lemma digit_not_special:
  "is_digit c \<Longrightarrow> c \<noteq> CHR ''/'' \<and> c \<noteq> CHR ''?'' \<and> c \<noteq> CHR ''#'' \<and> c \<noteq> CHR ''-''"
  by (auto simp: is_digit_def code_def)

lemma isdigit_no_special:
  assumes "py_isdigit s"
  shows "s \<noteq> []" "CHR ''/'' \<notin> set s" "CHR ''?'' \<notin> set s" "CHR ''#'' \<notin> set s" "CHR ''-'' \<notin> set s"
  using assms digit_not_special by (auto simp: py_isdigit_def list_all_iff)

lemma py_rstrip_slash: "CHR ''/'' \<notin> set s \<Longrightarrow> py_rstrip (\<lambda>c. c = CHR ''/'') s = s"
  by (cases s rule: rev_cases) (auto simp: py_rstrip_def)

section \<open>The search for the job-detail segment\<close>

text \<open>A match that starts at the marker: the segment up to the end or to a final slash.\<close>

lemma view_match_at_here:
  assumes "seg \<noteq> []" "CHR ''/'' \<notin> set seg" "tail = [] \<or> tail = ''/''"
  shows "view_match_at (view_marker @ seg @ tail) = Some seg"
proof -
  have t: "takeWhile (\<lambda>c. c \<noteq> CHR ''/'') (seg @ tail) = seg"
    using assms by (auto simp: takeWhile_neq_app)
  have d: "dropWhile (\<lambda>c. c \<noteq> CHR ''/'') (seg @ tail) = tail"
    using assms by (auto simp: dropWhile_neq_app)
  have s: "startswith (view_marker @ seg @ tail) view_marker"
    by (simp add: startswith_iff)
  have dr: "drop (length view_marker) (view_marker @ seg @ tail) = seg @ tail"
    by simp
  have "view_match_at (view_marker @ seg @ tail) =
          (if seg \<noteq> [] \<and> (tail = [] \<or> tail = ''/'' \<or> tail = [CHR ''/'', CHR 0x0A])
           then Some seg else None)"
    using s unfolding view_match_at_def Let_def dr t d by (simp only: if_True)
  then show ?thesis using assms(1,3) by auto
qed

lemma rest_long:
  "11 \<le> length (dropWhile (\<lambda>c. c \<noteq> CHR ''/'') (a @ view_marker @ x))"
proof -
  have "length (dropWhile (\<lambda>c. c \<noteq> CHR ''/'') (view_marker @ x)) \<le>
        length (dropWhile (\<lambda>c. c \<noteq> CHR ''/'') (a @ view_marker @ x))"
    by (rule dropWhile_long)
  then show ?thesis by (simp add: view_marker_def)
qed

lemma suffixes_enum:
  "p @ t = ''jobs/view/'' \<Longrightarrow> t \<in> {''jobs/view/'', ''obs/view/'', ''bs/view/'', ''s/view/'', ''/view/'',
        ''view/'', ''iew/'', ''ew/'', ''w/'', ''/'', []}"
  by (auto simp: append_eq_Cons_conv)

lemma short_case:
  assumes "t \<in> {''jobs/view/'', ''obs/view/'', ''bs/view/'', ''s/view/'', ''/view/'',
        ''view/'', ''iew/'', ''ew/'', ''w/'', ''/'', []}"
   and "view_marker @ seg @ tail = t @ r"
  shows "r = ''jobs/view/'' @ seg @ tail \<or> r = view_marker @ seg @ tail"
  using assms by (auto simp: view_marker_def)

lemma view_match_at_none:
  assumes "3 \<le> length (dropWhile (\<lambda>c. c \<noteq> CHR ''/'') r)"
  shows "view_match_at (view_marker @ r) = None"
proof -
  define d where "d = dropWhile (\<lambda>c. c \<noteq> CHR ''/'') r"
  have dr: "drop (length view_marker) (view_marker @ r) = r"
    by simp
  have "3 \<le> length d"
    using assms by (simp add: d_def)
  then have "d \<noteq> [] \<and> d \<noteq> ''/'' \<and> d \<noteq> [CHR ''/'', CHR 0x0A]"
    by auto
  then show ?thesis
    unfolding view_match_at_def Let_def dr d_def [symmetric] by simp
qed

lemma view_match_at_later:
  assumes "seg \<noteq> []" "CHR ''/'' \<notin> set seg"
  shows "view_match_at (c # p @ view_marker @ seg @ tail) = None"
proof (cases "startswith (c # p @ view_marker @ seg @ tail) view_marker")
  case False
  then show ?thesis by (simp add: view_match_at_def)
next
  case True
  then obtain r where r: "c # p @ view_marker @ seg @ tail = view_marker @ r"
    by (auto simp: startswith_iff)
  then have eq: "p @ view_marker @ seg @ tail = ''jobs/view/'' @ r"
    by (simp add: view_marker_def)
  then obtain t where t:
      "p = ''jobs/view/'' @ t \<and> t @ view_marker @ seg @ tail = r \<or>
       p @ t = ''jobs/view/'' \<and> view_marker @ seg @ tail = t @ r"
    unfolding append_eq_append_conv2 by blast
  have len: "3 \<le> length (dropWhile (\<lambda>c. c \<noteq> CHR ''/'') r)"
  proof (cases "p = ''jobs/view/'' @ t \<and> t @ view_marker @ seg @ tail = r")
    case True
    then show ?thesis using rest_long [of t "seg @ tail"] by auto
  next
    case False
    with t have short: "p @ t = ''jobs/view/''" "view_marker @ seg @ tail = t @ r"
      by auto
    have "r = ''jobs/view/'' @ seg @ tail \<or> r = view_marker @ seg @ tail"
      using short_case [OF suffixes_enum [OF short(1)] short(2)] .
    then show ?thesis by (auto simp: view_marker_def)
  qed
  show ?thesis
    using view_match_at_none [OF len] r by simp
qed

lemma re_search_view_found:
  assumes "seg \<noteq> []" "CHR ''/'' \<notin> set seg" "tail = [] \<or> tail = ''/''"
  shows "re_search_view (p @ view_marker @ seg @ tail) = Some seg"
proof (induction p)
  case Nil
  have "view_marker @ seg @ tail \<noteq> []" by (simp add: view_marker_def)
  then obtain c cs where ccs: "view_marker @ seg @ tail = c # cs"
    by (cases "view_marker @ seg @ tail") auto
  have "re_search_view (c # cs) = Some seg"
    using view_match_at_here [OF assms] unfolding ccs by simp
  then show ?case using ccs by simp
next
  case (Cons c p)
  then show ?case using view_match_at_later [OF assms(1,2), of c p tail] by simp
qed

section \<open>The canonicalizer: canonical forms\<close>

lemma base_of_url:
  assumes "CHR ''?'' \<notin> set b" "CHR ''#'' \<notin> set b"
      and "sfx = [] \<or> hd sfx = CHR ''?'' \<or> hd sfx = CHR ''#''"
  shows "hd (py_split (CHR ''#'') (hd (py_split (CHR ''?'') (b @ sfx)))) = b"
proof (cases sfx)
  case Nil
  then show ?thesis using assms by (simp add: hd_py_split takeWhile_all)
next
  case (Cons x xs)
  then have x: "x = CHR ''?'' \<or> x = CHR ''#''" using assms(3) by auto
  have "takeWhile (\<lambda>c. c \<noteq> CHR ''?'') (b @ sfx) = b \<or>
        takeWhile (\<lambda>c. c \<noteq> CHR ''?'') (b @ sfx) = b @ CHR ''#'' # takeWhile (\<lambda>c. c \<noteq> CHR ''?'') xs"
    using x Cons assms(1) by (auto simp: takeWhile_neq_app)
  then show ?thesis
    using assms(2) by (auto simp: hd_py_split takeWhile_neq_app takeWhile_all)
qed

lemma normalize_of_base:
  assumes "\<not> startswith b ''/''" "CHR ''?'' \<notin> set b" "CHR ''#'' \<notin> set b"
  shows "normalize_job_url b =
     (if \<not> py_in view_marker b then b
      else (case re_search_view b of
              None \<Rightarrow> b
            | Some g \<Rightarrow>
                (let segment = py_rstrip (\<lambda>c. c = CHR ''/'') g;
                     job_id = (if py_isdigit segment then segment
                               else (let parts = py_split (CHR ''-'') segment
                                     in if parts \<noteq> [] \<and> py_isdigit (last parts)
                                        then last parts else segment))
                 in origin @ view_marker @ job_id)))"
proof -
  have "hd (py_split (CHR ''#'') (hd (py_split (CHR ''?'') b))) = b"
    using base_of_url [OF assms(2,3), of "[]"] by simp
  then show ?thesis
    unfolding normalize_job_url_def Let_def using assms(1)
    by (simp cong: option.case_cong)
qed

lemma view_match_at_Some:
  assumes "view_match_at s = Some g"
  shows "g \<noteq> []" "CHR ''/'' \<notin> set g" "set g \<subseteq> set s"
proof -
  have g: "g = takeWhile (\<lambda>c. c \<noteq> CHR ''/'') (drop (length view_marker) s)" and ne: "g \<noteq> []"
    using assms unfolding view_match_at_def Let_def by (auto split: if_splits)
  show "g \<noteq> []" by (rule ne)
  show "CHR ''/'' \<notin> set g"
    unfolding g by (auto dest: set_takeWhileD)
  show "set g \<subseteq> set s"
    unfolding g by (auto dest!: set_takeWhileD in_set_dropD)
qed

lemma re_search_view_Some:
  "re_search_view s = Some g \<Longrightarrow> g \<noteq> [] \<and> CHR ''/'' \<notin> set g \<and> set g \<subseteq> set s"
proof (induction s)
  case Nil
  then show ?case using view_match_at_Some [of "[]" g] by simp
next
  case (Cons c cs)
  show ?case
  proof (cases "view_match_at (c # cs)")
    case None
    then have "re_search_view cs = Some g" using Cons.prems by simp
    then show ?thesis using Cons.IH by auto
  next
    case (Some h)
    then have "h = g" using Cons.prems by simp
    then show ?thesis using view_match_at_Some [of "c # cs" g] Some by simp
  qed
qed

lemma normalize_canonical:
  assumes "j \<noteq> []" "CHR ''/'' \<notin> set j" "CHR ''?'' \<notin> set j" "CHR ''#'' \<notin> set j"
      and "py_isdigit j \<or> \<not> py_isdigit (last (py_split (CHR ''-'') j))"
  shows "normalize_job_url (origin @ view_marker @ j) = origin @ view_marker @ j"
proof -
  let ?b = "origin @ view_marker @ j"
  have 1: "\<not> startswith ?b ''/''" by (simp add: origin_def)
  have 2: "CHR ''?'' \<notin> set ?b" "CHR ''#'' \<notin> set ?b"
    using assms(3,4) by (auto simp: origin_def view_marker_def)
  have 3: "py_in view_marker ?b"
    unfolding py_in_iff by blast
  have 4: "re_search_view ?b = Some j"
    using re_search_view_found [OF assms(1,2), of "[]" origin] by simp
  show ?thesis
    unfolding normalize_of_base [OF 1 2] using 3 4 assms(5)
    by (auto simp: py_rstrip_slash [OF assms(2)] Let_def)
qed

lemma normalize_base_cases:
  assumes "\<not> startswith b ''/''" "CHR ''?'' \<notin> set b" "CHR ''#'' \<notin> set b"
  shows "normalize_job_url b = b \<or>
         (\<exists>j. normalize_job_url b = origin @ view_marker @ j \<and> j \<noteq> [] \<and>
              CHR ''/'' \<notin> set j \<and> CHR ''?'' \<notin> set j \<and> CHR ''#'' \<notin> set j \<and>
              (py_isdigit j \<or> \<not> py_isdigit (last (py_split (CHR ''-'') j))))"
proof (cases "py_in view_marker b")
  case False
  then show ?thesis by (simp add: normalize_of_base [OF assms])
next
  case True
  show ?thesis
  proof (cases "re_search_view b")
    case None
    then show ?thesis using True by (simp add: normalize_of_base [OF assms])
  next
    case (Some g)
    then have g: "g \<noteq> []" "CHR ''/'' \<notin> set g" "set g \<subseteq> set b"
      using re_search_view_Some by auto
    then have g2: "CHR ''?'' \<notin> set g" "CHR ''#'' \<notin> set g"
      using assms(2,3) by auto
    let ?l = "last (py_split (CHR ''-'') g)"
    have nb: "normalize_job_url b = origin @ view_marker @
        (if py_isdigit g then g else if py_isdigit ?l then ?l else g)"
      using True Some
      by (simp add: normalize_of_base [OF assms] py_rstrip_slash [OF g(2)] Let_def py_split_nonempty)
    show ?thesis
    proof (cases "\<not> py_isdigit g \<and> py_isdigit ?l")
      case True
      then have "normalize_job_url b = origin @ view_marker @ ?l"
        using nb by simp
      moreover have "?l \<noteq> []" "CHR ''/'' \<notin> set ?l" "CHR ''?'' \<notin> set ?l" "CHR ''#'' \<notin> set ?l"
        using isdigit_no_special [of ?l] True by auto
      ultimately show ?thesis using True by blast
    next
      case False
      then have "normalize_job_url b = origin @ view_marker @ g"
        using nb by auto
      moreover have "py_isdigit g \<or> \<not> py_isdigit ?l"
        using False by auto
      ultimately show ?thesis using g g2 by blast
    qed
  qed
qed

lemma normalize_via_base:
  fixes u :: string
  defines "b \<equiv> hd (py_split (CHR ''#'') (hd (py_split (CHR ''?'')
                   (if startswith u ''/'' then origin @ u else u))))"
  shows "\<not> startswith b ''/''" "CHR ''?'' \<notin> set b" "CHR ''#'' \<notin> set b"
        "normalize_job_url u = normalize_job_url b"
proof -
  let ?url = "if startswith u ''/'' then origin @ u else u"
  have bt: "b = takeWhile (\<lambda>c. c \<noteq> CHR ''#'') (takeWhile (\<lambda>c. c \<noteq> CHR ''?'') ?url)"
    by (simp add: b_def hd_py_split)
  show b1: "\<not> startswith b ''/''"
  proof (cases "startswith u ''/''")
    case True
    then show ?thesis by (simp add: bt origin_def)
  next
    case False
    then show ?thesis by (cases u) (auto simp: bt)
  qed
  show b2: "CHR ''?'' \<notin> set b"
    unfolding bt by (auto dest!: set_takeWhileD)
  show b3: "CHR ''#'' \<notin> set b"
    unfolding bt by (auto dest!: set_takeWhileD)
  have "normalize_job_url u =
     (if \<not> py_in view_marker b then b
      else (case re_search_view b of
              None \<Rightarrow> b
            | Some g \<Rightarrow>
                (let segment = py_rstrip (\<lambda>c. c = CHR ''/'') g;
                     job_id = (if py_isdigit segment then segment
                               else (let parts = py_split (CHR ''-'') segment
                                     in if parts \<noteq> [] \<and> py_isdigit (last parts)
                                        then last parts else segment))
                 in origin @ view_marker @ job_id)))"
    unfolding normalize_job_url_def b_def Let_def by (rule refl)
  then show "normalize_job_url u = normalize_job_url b"
    using normalize_of_base [OF b1 b2 b3] by simp
qed

text \<open>
  Claim C9. The canonicalizer is idempotent: canonicalizing the output of
  \<open>normalize_job_url\<close> gives that output again, for every input string, so a stored
  canonical URL keeps its identity when it is read back and canonicalized once more.
\<close>

theorem normalize_job_url_idempotent:
  "normalize_job_url (normalize_job_url u) = normalize_job_url u"
proof -
  define b where "b = hd (py_split (CHR ''#'') (hd (py_split (CHR ''?'')
                   (if startswith u ''/'' then origin @ u else u))))"
  have b: "\<not> startswith b ''/''" "CHR ''?'' \<notin> set b" "CHR ''#'' \<notin> set b"
    and ub: "normalize_job_url u = normalize_job_url b"
    unfolding b_def by (rule normalize_via_base)+
  from normalize_base_cases [OF b] show ?thesis
  proof
    assume "normalize_job_url b = b"
    then show ?thesis by (simp add: ub)
  next
    assume "\<exists>j. normalize_job_url b = origin @ view_marker @ j \<and> j \<noteq> [] \<and>
              CHR ''/'' \<notin> set j \<and> CHR ''?'' \<notin> set j \<and> CHR ''#'' \<notin> set j \<and>
              (py_isdigit j \<or> \<not> py_isdigit (last (py_split (CHR ''-'') j)))"
    then obtain j where j: "normalize_job_url b = origin @ view_marker @ j" "j \<noteq> []"
        "CHR ''/'' \<notin> set j" "CHR ''?'' \<notin> set j" "CHR ''#'' \<notin> set j"
        "py_isdigit j \<or> \<not> py_isdigit (last (py_split (CHR ''-'') j))"
      by blast
    show ?thesis
      unfolding ub j(1) by (rule normalize_canonical [OF j(2-6)])
  qed
qed

theorem normalize_job_url_idempotent_witness:
  "normalize_job_url (normalize_job_url ''/jobs/view/software-engineer-4370870454?trk=x'') =
     normalize_job_url ''/jobs/view/software-engineer-4370870454?trk=x''"
  by (rule normalize_job_url_idempotent)

lemma normalize_job_detail:
  assumes pre: "CHR ''?'' \<notin> set pre" "CHR ''#'' \<notin> set pre"
      and body: "body \<noteq> []" "CHR ''/'' \<notin> set body" "CHR ''?'' \<notin> set body" "CHR ''#'' \<notin> set body"
      and slash: "slash = [] \<or> slash = ''/''"
      and sfx: "sfx = [] \<or> hd sfx = CHR ''?'' \<or> hd sfx = CHR ''#''"
  shows "normalize_job_url (pre @ view_marker @ body @ slash @ sfx) =
         origin @ view_marker @
           (if py_isdigit body then body
            else if py_isdigit (last (py_split (CHR ''-'') body))
                 then last (py_split (CHR ''-'') body) else body)"
proof -
  let ?u = "pre @ view_marker @ body @ slash @ sfx"
  define pre' where "pre' = (if startswith ?u ''/'' then origin @ pre else pre)"
  define b where "b = pre' @ view_marker @ body @ slash"
  have url: "(if startswith ?u ''/'' then origin @ ?u else ?u) = b @ sfx"
    by (simp add: pre'_def b_def)
  have b2: "CHR ''?'' \<notin> set b" "CHR ''#'' \<notin> set b"
    using pre body slash by (auto simp: b_def pre'_def origin_def view_marker_def)
  have base: "hd (py_split (CHR ''#'') (hd (py_split (CHR ''?'') (b @ sfx)))) = b"
    by (rule base_of_url [OF b2 sfx])
  have inb: "py_in view_marker b"
    unfolding py_in_iff b_def by blast
  have found: "re_search_view b = Some body"
    unfolding b_def by (rule re_search_view_found [OF body(1,2) slash])
  show ?thesis
    unfolding normalize_job_url_def Let_def url base
    using inb found by (simp add: py_rstrip_slash [OF body(2)] py_split_nonempty)
qed

text \<open>
  Claim C2. Let the job id be a non-empty string of decimal digits and the slug one path
  segment (no slash, question mark or hash), let each URL start with any prefix that has
  no query or fragment (nothing, or scheme and host), end its path with or without a
  slash, and go on with nothing or with a query or fragment. Then the numeric form
  \<open>/jobs/view/{id}\<close> and the slug form \<open>/jobs/view/{slug}-{id}\<close> both canonicalize to
  the origin followed by \<open>/jobs/view/{id}\<close>, with no query, fragment or final slash.
\<close>

theorem normalize_job_url_forms_agree:
  assumes "py_isdigit job_id"
      and "CHR ''/'' \<notin> set slug \<and> CHR ''?'' \<notin> set slug \<and> CHR ''#'' \<notin> set slug"
      and "CHR ''?'' \<notin> set pre1 \<and> CHR ''#'' \<notin> set pre1"
      and "CHR ''?'' \<notin> set pre2 \<and> CHR ''#'' \<notin> set pre2"
      and "slash1 = [] \<or> slash1 = ''/''"
      and "slash2 = [] \<or> slash2 = ''/''"
      and "sfx1 = [] \<or> hd sfx1 = CHR ''?'' \<or> hd sfx1 = CHR ''#''"
      and "sfx2 = [] \<or> hd sfx2 = CHR ''?'' \<or> hd sfx2 = CHR ''#''"
  shows "normalize_job_url (pre1 @ view_marker @ job_id @ slash1 @ sfx1) =
           origin @ view_marker @ job_id
       \<and> normalize_job_url (pre2 @ view_marker @ (slug @ ''-'' @ job_id) @ slash2 @ sfx2) =
           origin @ view_marker @ job_id"
proof
  note d = isdigit_no_special [OF assms(1)]
  show "normalize_job_url (pre1 @ view_marker @ job_id @ slash1 @ sfx1) =
           origin @ view_marker @ job_id"
    using normalize_job_detail [of pre1 job_id slash1 sfx1] assms d by simp
  let ?body = "slug @ ''-'' @ job_id"
  have l: "last (py_split (CHR ''-'') ?body) = job_id"
    using last_py_split_app [of "CHR ''-''" slug job_id] py_split_no_sep [OF d(5)] by simp
  have nd: "\<not> py_isdigit ?body"
    using isdigit_no_special(5) [of ?body] by auto
  have "normalize_job_url (pre2 @ view_marker @ ?body @ slash2 @ sfx2) =
         origin @ view_marker @
           (if py_isdigit ?body then ?body
            else if py_isdigit (last (py_split (CHR ''-'') ?body))
                 then last (py_split (CHR ''-'') ?body) else ?body)"
    using assms d by (intro normalize_job_detail) auto
  then show "normalize_job_url (pre2 @ view_marker @ ?body @ slash2 @ sfx2) =
           origin @ view_marker @ job_id"
    unfolding l using nd assms(1) by simp
qed

theorem normalize_job_url_forms_agree_witness:
  "normalize_job_url (''https://www.linkedin.com/jobs/view/4370870454/?refId=abc#top'') =
     ''https://www.linkedin.com/jobs/view/4370870454''
   \<and> normalize_job_url (''/jobs/view/software-engineer-4370870454?trk=x'') =
     ''https://www.linkedin.com/jobs/view/4370870454''"
  using normalize_job_url_forms_agree [of "''4370870454''" "''software-engineer''"
      "''https://www.linkedin.com''" "[]" "''/''" "[]" "''?refId=abc#top''" "''?trk=x''"]
  by (simp add: py_isdigit_def is_digit_def code_def view_marker_def origin_def)

section \<open>The company-size extractor: what it returns\<close>

lemma first_match_iff: "first_match pats text = list_ex (\<lambda>pat. re_search pat text) pats"
  by (induction pats) auto

lemma size_example_small:
  "list_ex (\<lambda>pat. re_search pat ''11-50 employees'') in_range_patterns = True"
  by code_simp

lemma size_example_large:
  "list_ex (\<lambda>pat. re_search pat ''201-500 employees'') in_range_patterns = False"
  by code_simp

lemma size_example_large_out:
  "first_match out_of_range_patterns ''201-500 employees'' = True"
  by code_simp

lemma size_example_none:
  "list_ex (\<lambda>pat. re_search pat ''We build rockets'') in_range_patterns = False"
  by code_simp

lemma size_example_both:
  "list_ex (\<lambda>pat. re_search pat ''900 employees, 2-10 Employees'') in_range_patterns = True"
  by code_simp

lemma size_example_both_out:
  "first_match out_of_range_patterns ''900 employees, 2-10 Employees'' = True"
  by code_simp

text \<open>
  Claim C4. For every company-profile text, the size test returns true exactly when one of
  the four in-range patterns (\<open>1-10 employees\<close>, \<open>11-50 employees\<close>, \<open>1 employee\<close>,
  \<open>2-10 employees\<close>, matched without regard to case) is found in it. The in-range
  patterns are tried first; when none is found the result is false, whether an
  out-of-range pattern is found or no employee-count phrase occurs at all.
\<close>

theorem parse_employee_range_from_text_in_range_only:
  "parse_employee_range_from_text text = list_ex (\<lambda>pat. re_search pat text) in_range_patterns"
  by (simp add: parse_employee_range_from_text_def first_match_iff)

theorem parse_employee_range_from_text_in_range_only_witness:
  "parse_employee_range_from_text ''11-50 employees'' = True
   \<and> parse_employee_range_from_text ''201-500 employees'' = False
   \<and> first_match out_of_range_patterns ''201-500 employees'' = True
   \<and> parse_employee_range_from_text ''We build rockets'' = False
   \<and> parse_employee_range_from_text ''900 employees, 2-10 Employees'' = True
   \<and> first_match out_of_range_patterns ''900 employees, 2-10 Employees'' = True"
  using parse_employee_range_from_text_in_range_only [of "''11-50 employees''"]
    parse_employee_range_from_text_in_range_only [of "''201-500 employees''"]
    parse_employee_range_from_text_in_range_only [of "''We build rockets''"]
    parse_employee_range_from_text_in_range_only [of "''900 employees, 2-10 Employees''"]
  by (simp only: size_example_small size_example_large size_example_large_out
        size_example_none size_example_both size_example_both_out simp_thms)

section \<open>The document classifier: its two signals\<close>

lemma scan_apply_buttons_iff:
  "scan_apply_buttons els =
     (\<not> list_ex (\<lambda>el. py_in ''apply on '' (py_lower el) \<and>
            list_ex (\<lambda>k. py_in k (py_lower el)) THIRD_PARTY_KEYWORDS) els)"
  by (induction els) (auto simp: Let_def)

lemma via_example:
  "(\<not> (case find_header (\<lparr>header_primary = Some \<lparr>header_text = ''Acme Corp - via LinkedIn'', header_links = []\<rparr>,
      header_fallback = None, buttons = [], anchors = []\<rparr>) of
            None \<Rightarrow> False
          | Some h \<Rightarrow> py_in '' via '' (py_lower (header_text h)))
      \<and> \<not> list_ex (\<lambda>el. py_in ''apply on '' (py_lower el) \<and>
                 list_ex (\<lambda>k. py_in k (py_lower el)) THIRD_PARTY_KEYWORDS)
             (buttons (\<lparr>header_primary = Some \<lparr>header_text = ''Acme Corp - via LinkedIn'', header_links = []\<rparr>,
      header_fallback = None, buttons = [], anchors = []\<rparr>) @ anchors (\<lparr>header_primary = Some \<lparr>header_text = ''Acme Corp - via LinkedIn'', header_links = []\<rparr>,
      header_fallback = None, buttons = [], anchors = []\<rparr>))) = False"
  by code_simp

lemma indeed_example:
  "(\<not> (case find_header (\<lparr>header_primary = None, header_fallback = None,
      buttons = [''Apply on Indeed''], anchors = []\<rparr>) of
            None \<Rightarrow> False
          | Some h \<Rightarrow> py_in '' via '' (py_lower (header_text h)))
      \<and> \<not> list_ex (\<lambda>el. py_in ''apply on '' (py_lower el) \<and>
                 list_ex (\<lambda>k. py_in k (py_lower el)) THIRD_PARTY_KEYWORDS)
             (buttons (\<lparr>header_primary = None, header_fallback = None,
      buttons = [''Apply on Indeed''], anchors = []\<rparr>) @ anchors (\<lparr>header_primary = None, header_fallback = None,
      buttons = [''Apply on Indeed''], anchors = []\<rparr>))) = False"
  by code_simp

lemma website_example:
  "(\<not> (case find_header (\<lparr>header_primary = None,
      header_fallback = Some \<lparr>header_text = ''Acme Corp'', header_links = []\<rparr>,
      buttons = [''Save''], anchors = [''Apply on company website'']\<rparr>) of
            None \<Rightarrow> False
          | Some h \<Rightarrow> py_in '' via '' (py_lower (header_text h)))
      \<and> \<not> list_ex (\<lambda>el. py_in ''apply on '' (py_lower el) \<and>
                 list_ex (\<lambda>k. py_in k (py_lower el)) THIRD_PARTY_KEYWORDS)
             (buttons (\<lparr>header_primary = None,
      header_fallback = Some \<lparr>header_text = ''Acme Corp'', header_links = []\<rparr>,
      buttons = [''Save''], anchors = [''Apply on company website'']\<rparr>) @ anchors (\<lparr>header_primary = None,
      header_fallback = Some \<lparr>header_text = ''Acme Corp'', header_links = []\<rparr>,
      buttons = [''Save''], anchors = [''Apply on company website'']\<rparr>))) = True"
  by code_simp

lemma no_header_example:
  "(\<not> (case find_header (\<lparr>header_primary = None, header_fallback = None,
      buttons = [''Save''], anchors = [''Apply on company website'']\<rparr>) of
            None \<Rightarrow> False
          | Some h \<Rightarrow> py_in '' via '' (py_lower (header_text h)))
      \<and> \<not> list_ex (\<lambda>el. py_in ''apply on '' (py_lower el) \<and>
                 list_ex (\<lambda>k. py_in k (py_lower el)) THIRD_PARTY_KEYWORDS)
             (buttons (\<lparr>header_primary = None, header_fallback = None,
      buttons = [''Save''], anchors = [''Apply on company website'']\<rparr>) @ anchors (\<lparr>header_primary = None, header_fallback = None,
      buttons = [''Save''], anchors = [''Apply on company website'']\<rparr>))) = True"
  by code_simp

text \<open>
  Claim C5. A job-detail document is first-party exactly when neither signal fires: the
  header region, when there is one, does not contain \<open>" via "\<close> in its lower-cased text,
  and no button or link has a lower-cased text that contains \<open>"apply on "\<close> together with
  one of the names \<open>indeed\<close>, \<open>monster\<close>, \<open>glassdoor\<close>, \<open>ziprecruiter\<close>. A document
  without a header region is judged by its buttons and links alone.
\<close>

theorem is_first_party_job_signals:
  "is_first_party_job page =
     (\<not> (case find_header page of
            None \<Rightarrow> False
          | Some h \<Rightarrow> py_in '' via '' (py_lower (header_text h)))
      \<and> \<not> list_ex (\<lambda>el. py_in ''apply on '' (py_lower el) \<and>
                 list_ex (\<lambda>k. py_in k (py_lower el)) THIRD_PARTY_KEYWORDS)
             (buttons page @ anchors page))"
  by (auto simp: is_first_party_job_def scan_apply_buttons_iff split: option.splits)

theorem is_first_party_job_signals_witness:
  "is_first_party_job \<lparr>header_primary = Some \<lparr>header_text = ''Acme Corp - via LinkedIn'', header_links = []\<rparr>,
      header_fallback = None, buttons = [], anchors = []\<rparr> = False
   \<and> is_first_party_job \<lparr>header_primary = None, header_fallback = None,
      buttons = [''Apply on Indeed''], anchors = []\<rparr> = False
   \<and> is_first_party_job \<lparr>header_primary = None,
      header_fallback = Some \<lparr>header_text = ''Acme Corp'', header_links = []\<rparr>,
      buttons = [''Save''], anchors = [''Apply on company website'']\<rparr> = True
   \<and> is_first_party_job \<lparr>header_primary = None, header_fallback = None,
      buttons = [''Save''], anchors = [''Apply on company website'']\<rparr> = True"
  using is_first_party_job_signals [of "\<lparr>header_primary = Some \<lparr>header_text = ''Acme Corp - via LinkedIn'', header_links = []\<rparr>,
      header_fallback = None, buttons = [], anchors = []\<rparr>"]
    is_first_party_job_signals [of "\<lparr>header_primary = None, header_fallback = None,
      buttons = [''Apply on Indeed''], anchors = []\<rparr>"]
    is_first_party_job_signals [of "\<lparr>header_primary = None,
      header_fallback = Some \<lparr>header_text = ''Acme Corp'', header_links = []\<rparr>,
      buttons = [''Save''], anchors = [''Apply on company website'']\<rparr>"]
    is_first_party_job_signals [of "\<lparr>header_primary = None, header_fallback = None,
      buttons = [''Save''], anchors = [''Apply on company website'']\<rparr>"]
  by (simp only: via_example indeed_example website_example no_header_example simp_thms)

section \<open>The filter pipeline: one failed fetch skips one URL\<close>

lemma filter_loop_acc: "filter_loop w results us = results @ filter_loop w [] us"
proof (induction us arbitrary: results)
  case Nil
  then show ?case by simp
next
  case (Cons u us)
  show ?case
  proof (cases "fetch_page w u")
    case None
    then show ?thesis using Cons.IH [of results] by simp
  next
    case (Some html)
    let ?j = "\<lparr>url = u, company_name = parse_company_name_from_job_page (soup w html)\<rparr>"
    show ?thesis
      using Some Cons.IH [of results] Cons.IH [of "results @ [?j]"] Cons.IH [of "[?j]"]
      by simp
  qed
qed

lemma filter_first_party_jobs_app:
  "filter_first_party_jobs w (xs @ ys) = filter_first_party_jobs w xs @ filter_first_party_jobs w ys"
proof -
  have "filter_loop w results (xs @ ys) = filter_loop w (filter_loop w results xs) ys" for results
    by (induction xs arbitrary: results) (auto split: option.splits)
  then show ?thesis
    unfolding filter_first_party_jobs_def using filter_loop_acc [of w "filter_loop w [] xs" ys]
    by simp
qed

lemma filter_first_party_jobs_urls:
  "map url (filter_first_party_jobs w us) =
     filter (\<lambda>u. case fetch_page w u of
                   None \<Rightarrow> False
                 | Some html \<Rightarrow> is_first_party_job (soup w html) \<and> is_company_size_1_to_50 w html) us"
proof (induction us)
  case Nil
  then show ?case by (simp add: filter_first_party_jobs_def)
next
  case (Cons u us)
  have "filter_first_party_jobs w (u # us) = filter_first_party_jobs w [u] @ filter_first_party_jobs w us"
    using filter_first_party_jobs_app [of w "[u]" us] by simp
  then show ?case using Cons.IH
    by (auto simp: filter_first_party_jobs_def split: option.splits)
qed

text \<open>
  Claim C7. For every list of candidate URLs and every way the network answers, a
  transport failure on the job-detail page of one URL skips that URL and nothing else:
  the pipeline returns its list of records (the failure does not leave it), the URLs
  before and after the failed one are processed as if it were absent, and the records
  come in the order of the surviving input URLs.
\<close>

theorem filter_first_party_jobs_isolates_failure:
  assumes "fetch_page w bad = None"
  shows "filter_first_party_jobs w (before @ bad # after) =
           filter_first_party_jobs w before @ filter_first_party_jobs w after
       \<and> map url (filter_first_party_jobs w (before @ bad # after)) =
           filter (\<lambda>u. case fetch_page w u of
                         None \<Rightarrow> False
                       | Some html \<Rightarrow>
                           is_first_party_job (soup w html) \<and> is_company_size_1_to_50 w html)
             (before @ after)"
proof -
  have skip: "filter_first_party_jobs w [bad] = []"
    using assms by (simp add: filter_first_party_jobs_def)
  have 1: "filter_first_party_jobs w (before @ bad # after) =
           filter_first_party_jobs w before @ filter_first_party_jobs w after"
    using filter_first_party_jobs_app [of w before "[bad] @ after"]
      filter_first_party_jobs_app [of w "[bad]" after] skip by simp
  have 2: "map url (filter_first_party_jobs w (before @ bad # after)) =
        map url (filter_first_party_jobs w (before @ after))"
    unfolding 1 by (simp add: filter_first_party_jobs_app)
  show ?thesis
    using 1 2 filter_first_party_jobs_urls [of w "before @ after"] by simp
qed

lemma example_web_1:
  "filter_first_party_jobs example_web [''https://www.linkedin.com/jobs/view/1''] =
     [\<lparr>url = ''https://www.linkedin.com/jobs/view/1'', company_name = ''Acme''\<rparr>]"
  by code_simp

lemma example_web_3:
  "filter_first_party_jobs example_web [''https://www.linkedin.com/jobs/view/3''] =
     [\<lparr>url = ''https://www.linkedin.com/jobs/view/3'', company_name = ''Acme''\<rparr>]"
  by code_simp

lemma example_web_2: "fetch_page example_web ''https://www.linkedin.com/jobs/view/2'' = None"
  by code_simp

theorem filter_first_party_jobs_isolates_failure_witness:
  "fetch_page example_web ''https://www.linkedin.com/jobs/view/2'' = None
   \<and> filter_first_party_jobs example_web
       [''https://www.linkedin.com/jobs/view/1'', ''https://www.linkedin.com/jobs/view/2'',
        ''https://www.linkedin.com/jobs/view/3''] =
     [\<lparr>url = ''https://www.linkedin.com/jobs/view/1'', company_name = ''Acme''\<rparr>,
      \<lparr>url = ''https://www.linkedin.com/jobs/view/3'', company_name = ''Acme''\<rparr>]"
  using filter_first_party_jobs_isolates_failure [OF example_web_2,
      of "[''https://www.linkedin.com/jobs/view/1'']" "[''https://www.linkedin.com/jobs/view/3'']"]
  by (simp add: example_web_1 example_web_2 example_web_3)

section \<open>The csv module: rows written are read back\<close>

lemma needs_quote_iff: "needs_quote f = (\<not> list_all plain f)"
  by (induction f) (auto simp: needs_quote_def plain_def)

lemma read_plain_in_field:
  "list_all plain f \<Longrightarrow>
     csv_read_from IN_FIELD g fs (f @ rest) = csv_read_from IN_FIELD (g @ f) fs rest"
  by (induction f arbitrary: g) (auto simp: plain_def)

lemma read_plain_start:
  assumes "list_all plain f" "f \<noteq> []" "st = START_RECORD \<or> st = EAT_CRNL \<or> st = START_FIELD"
  shows "csv_read_from st [] fs (f @ rest) = csv_read_from IN_FIELD f fs rest"
proof -
  obtain c f' where f: "f = c # f'" using assms(2) by (cases f) auto
  then have "plain c" "list_all plain f'" using assms(1) by auto
  then show ?thesis
    using assms(3) read_plain_in_field [of f' "[c]" fs rest] unfolding f
    by (auto simp: plain_def)
qed

lemma read_quoted_body:
  "csv_read_from IN_QUOTED_FIELD g fs
     (concat (map (\<lambda>c. if c = QUOTE then [c, c] else [c]) f) @ rest) =
   csv_read_from IN_QUOTED_FIELD (g @ f) fs rest"
  by (induction f arbitrary: g) (auto simp: QUOTE_def CR_def LF_def)

lemma quote_facts: "QUOTE \<noteq> CR" "QUOTE \<noteq> LF" "QUOTE \<noteq> CHR '',''" "CHR '','' \<noteq> CR" "CHR '','' \<noteq> LF" "CR \<noteq> LF"
  by (simp_all add: QUOTE_def CR_def LF_def)

lemma read_field_comma:
  assumes "st = START_RECORD \<or> st = EAT_CRNL \<or> st = START_FIELD"
  shows "csv_read_from st [] fs (csv_field f @ CHR '','' # rest) =
         csv_read_from START_FIELD [] (fs @ [f]) rest"
proof (cases "needs_quote f")
  case True
  then show ?thesis
    using assms read_quoted_body [of "[]" fs f "QUOTE # CHR '','' # rest"] quote_facts
    by (auto simp: csv_field_def)
next
  case False
  then have p: "list_all plain f" by (simp add: needs_quote_iff)
  show ?thesis
  proof (cases "f = []")
    case True
    then show ?thesis using False assms quote_facts by (auto simp: csv_field_def)
  next
    case ne: False
    have "csv_read_from st [] fs (f @ CHR '','' # rest) = csv_read_from IN_FIELD f fs (CHR '','' # rest)"
      by (rule read_plain_start [OF p ne assms])
    then show ?thesis using False quote_facts by (simp add: csv_field_def)
  qed
qed

lemma read_field_end:
  assumes "st = START_FIELD \<or> ((st = START_RECORD \<or> st = EAT_CRNL) \<and> csv_field f \<noteq> [])"
  shows "csv_read_from st [] fs (csv_field f @ CR # LF # rest) =
         (fs @ [f]) # csv_read_from START_RECORD [] [] rest"
proof (cases "needs_quote f")
  case True
  then show ?thesis
    using assms read_quoted_body [of "[]" fs f "QUOTE # CR # LF # rest"] quote_facts
    by (auto simp: csv_field_def)
next
  case False
  then have p: "list_all plain f" by (simp add: needs_quote_iff)
  have cf: "csv_field f = f" using False by (simp add: csv_field_def)
  show ?thesis
  proof (cases "f = []")
    case True
    then have "st = START_FIELD" using assms cf by auto
    then show ?thesis using True cf quote_facts by auto
  next
    case ne: False
    have st: "st = START_RECORD \<or> st = EAT_CRNL \<or> st = START_FIELD" using assms by auto
    have "csv_read_from st [] fs (f @ CR # LF # rest) = csv_read_from IN_FIELD f fs (CR # LF # rest)"
      by (rule read_plain_start [OF p ne st])
    then show ?thesis using cf quote_facts by simp
  qed
qed

lemma read_joined_from_field:
  "fl \<noteq> [] \<Longrightarrow>
     csv_read_from START_FIELD [] fs (join_fields fl @ CR # LF # rest) =
       (fs @ fl) # csv_read_from START_RECORD [] [] rest"
proof (induction fl arbitrary: fs rule: join_fields.induct)
  case 1
  then show ?case by simp
next
  case (2 f)
  then show ?case using read_field_end [of START_FIELD f fs rest] by simp
next
  case (3 f g more)
  have "csv_read_from START_FIELD [] fs (join_fields (f # g # more) @ CR # LF # rest) =
        csv_read_from START_FIELD [] (fs @ [f]) (join_fields (g # more) @ CR # LF # rest)"
    using read_field_comma [of START_FIELD fs f "join_fields (g # more) @ CR # LF # rest"] by simp
  then show ?case using "3.IH" [of "fs @ [f]"] by simp
qed

lemma read_written_row:
  assumes "st = START_RECORD \<or> st = EAT_CRNL"
  shows "csv_read_from st [] [] (writerow flds @ rest) =
         flds # csv_read_from START_RECORD [] [] rest"
proof (cases flds)
  case Nil
  then show ?thesis using assms quote_facts by (auto simp: writerow_def)
next
  case (Cons f more)
  show ?thesis
  proof (cases more)
    case Nil
    show ?thesis
    proof (cases "csv_field f = []")
      case True
      then have "f = []" by (auto simp: csv_field_def split: if_splits)
      then show ?thesis
        using assms True Cons Nil quote_facts by (auto simp: writerow_def)
    next
      case False
      then show ?thesis
        using assms Cons Nil read_field_end [of st f "[]" rest] by (simp add: writerow_def)
    qed
  next
    case (Cons g more')
    have "csv_read_from st [] [] (join_fields (f # g # more') @ CR # LF # rest) =
          csv_read_from START_FIELD [] [f] (join_fields (g # more') @ CR # LF # rest)"
      using assms read_field_comma [of st "[]" f "join_fields (g # more') @ CR # LF # rest"] by auto
    then show ?thesis
      using \<open>flds = f # more\<close> Cons read_joined_from_field [of "g # more'" "[f]" rest]
      by (simp add: writerow_def)
  qed
qed

lemma read_written_rows:
  "csv_read_from START_RECORD [] [] (concat (map writerow rows) @ rest) =
     rows @ csv_read_from START_RECORD [] [] rest"
  by (induction rows) (simp_all add: read_written_row)

lemma csv_reader_written:
  "csv_reader (concat (map writerow rows) @ rest) = rows @ csv_reader rest"
  "csv_reader (concat (map writerow rows)) = rows"
  using read_written_rows [of rows rest] read_written_rows [of rows "[]"]
  by (simp_all add: csv_reader_def)

section \<open>Loading the store\<close>

lemma add_row_eq:
  "add_row f row S = S \<union> {stored_identity v | v. row_get f row ''job_url'' = Some v \<and> v \<noteq> []}"
  by (auto simp: add_row_def row_get_def split: option.splits if_splits)

lemma fold_add_row:
  "fold (add_row f) rows S =
     S \<union> {stored_identity v | row v. row \<in> set rows \<and> row_get f row ''job_url'' = Some v \<and> v \<noteq> []}"
proof (induction rows arbitrary: S)
  case Nil
  then show ?case by simp
next
  case (Cons r rows)
  have "fold (add_row f) (r # rows) S = fold (add_row f) rows (add_row f r S)"
    by simp
  also have "\<dots> = add_row f r S \<union>
      {stored_identity v | row v. row \<in> set rows \<and> row_get f row ''job_url'' = Some v \<and> v \<noteq> []}"
    by (rule Cons.IH)
  finally show ?case
    unfolding add_row_eq [of f r S] by auto
qed

lemma dropWhile_keep:
  "m \<noteq> [] \<Longrightarrow> \<not> P (hd m) \<Longrightarrow> dropWhile P (a @ m @ b) = dropWhile P a @ m @ b"
  by (induction a) (auto simp: dropWhile_append3 neq_Nil_conv)

lemma strip_keeps_marker:
  assumes "py_in view_marker v"
  shows "py_in view_marker (py_strip v)"
proof -
  obtain a b where v: "v = a @ view_marker @ b"
    using assms unfolding py_in_iff by blast
  have m: "view_marker \<noteq> []" "\<not> is_space (hd view_marker)"
      "rev view_marker \<noteq> []" "\<not> is_space (hd (rev view_marker))"
    by (simp_all add: view_marker_def is_space_def code_def)
  have 1: "dropWhile is_space v = dropWhile is_space a @ view_marker @ b"
    unfolding v using dropWhile_keep [of view_marker is_space a b] m(1,2) by simp
  have "dropWhile is_space (rev b @ rev view_marker @ rev (dropWhile is_space a)) =
        dropWhile is_space (rev b) @ rev view_marker @ rev (dropWhile is_space a)"
    using dropWhile_keep [of "rev view_marker" is_space "rev b" "rev (dropWhile is_space a)"] m(3,4)
    by simp
  then have "py_strip v = dropWhile is_space a @ view_marker @ rev (dropWhile is_space (rev b))"
    unfolding py_strip_def py_rstrip_def 1 by simp
  then show ?thesis
    unfolding py_in_iff by blast
qed

text \<open>Trimming cuts a text at both ends and nowhere else.\<close>

lemma py_strip_part: "\<exists>a b. v = a @ py_strip v @ b"
proof -
  let ?d = "dropWhile is_space v"
  have 1: "v = takeWhile is_space v @ ?d"
    by simp
  have "rev (rev ?d) = rev (takeWhile is_space (rev ?d) @ dropWhile is_space (rev ?d))"
    by (simp only: takeWhile_dropWhile_id)
  then have "?d = rev (dropWhile is_space (rev ?d)) @ rev (takeWhile is_space (rev ?d))"
    by (simp only: rev_rev_ident rev_append)
  then have 2: "?d = py_strip v @ rev (takeWhile is_space (rev ?d))"
    unfolding py_strip_def py_rstrip_def .
  have "v = takeWhile is_space v @ py_strip v @ rev (takeWhile is_space (rev ?d))"
    using 1 2 by metis
  then show ?thesis by blast
qed

lemma marker_in_strip_iff: "py_in view_marker (py_strip v) = py_in view_marker v"
proof
  assume "py_in view_marker (py_strip v)"
  then obtain a' b' where s: "py_strip v = a' @ view_marker @ b'"
    unfolding py_in_iff by blast
  obtain a b where "v = a @ py_strip v @ b"
    using py_strip_part by blast
  then have "v = (a @ a') @ view_marker @ (b' @ b)"
    using s by simp
  then show "py_in view_marker v"
    unfolding py_in_iff by blast
next
  assume "py_in view_marker v"
  then show "py_in view_marker (py_strip v)" by (rule strip_keeps_marker)
qed

lemma stored_identity_eq:
  "stored_identity v =
     (if py_in view_marker v then normalize_job_url (py_strip v) else py_strip v)"
  by (simp add: stored_identity_def Let_def marker_in_strip_iff)

text \<open>
  Claim C8. Loading the existing dataset from a store whose file is missing gives the
  empty set, and so does a file in which the reader finds no record. Otherwise the first
  record names the fields, and the set loaded is exactly this: for every later row whose
  \<open>job_url\<close> field is there and not empty, the trimmed field, canonicalized when the
  field contains the job-detail marker. So a row written with a raw URL counts under
  its canonical form.
\<close>

theorem load_existing_job_urls_canonical:
  "load_existing_job_urls None = {}
   \<and> (csv_reader text = [] \<longrightarrow> load_existing_job_urls (Some text) = {})
   \<and> (csv_reader text = fieldnames # rows \<longrightarrow>
        load_existing_job_urls (Some text) =
          {(if py_in view_marker v then normalize_job_url (py_strip v) else py_strip v) | row v.
             row \<in> set rows \<and> row_get fieldnames row ''job_url'' = Some v \<and> v \<noteq> []})"
  by (simp add: load_existing_job_urls_def fold_add_row stored_identity_eq)

lemma legacy_row_example:
  "csv_reader (''company,job_url'' @ [CR, LF] @
       ''Acme, https://www.linkedin.com/jobs/view/software-engineer-42?trk=x '' @ [CR, LF]) =
     [[''company'', ''job_url''],
      [''Acme'', '' https://www.linkedin.com/jobs/view/software-engineer-42?trk=x '']]
   \<and> row_get [''company'', ''job_url'']
     [''Acme'', '' https://www.linkedin.com/jobs/view/software-engineer-42?trk=x ''] ''job_url'' =
     Some '' https://www.linkedin.com/jobs/view/software-engineer-42?trk=x ''
   \<and> py_in view_marker '' https://www.linkedin.com/jobs/view/software-engineer-42?trk=x ''
   \<and> normalize_job_url (py_strip '' https://www.linkedin.com/jobs/view/software-engineer-42?trk=x '') =
       ''https://www.linkedin.com/jobs/view/42''"
  by code_simp

theorem load_existing_job_urls_canonical_witness:
  "load_existing_job_urls None = {}
   \<and> load_existing_job_urls (Some (''company,job_url'' @ [CR, LF] @
       ''Acme, https://www.linkedin.com/jobs/view/software-engineer-42?trk=x '' @ [CR, LF])) =
     {''https://www.linkedin.com/jobs/view/42''}"
proof -
  define v where "v = '' https://www.linkedin.com/jobs/view/software-engineer-42?trk=x ''"
  define row where "row = [''Acme'', v]"
  define hdr where "hdr = [''company'', ''job_url'']"
  define content where "content = ''company,job_url'' @ [CR, LF] @
       ''Acme, https://www.linkedin.com/jobs/view/software-engineer-42?trk=x '' @ [CR, LF]"
  have e: "csv_reader content = hdr # [row]" "row_get hdr row ''job_url'' = Some v"
      "py_in view_marker v"
      "normalize_job_url (py_strip v) = ''https://www.linkedin.com/jobs/view/42''"
    using legacy_row_example unfolding v_def row_def hdr_def content_def by blast+
  have ne: "v \<noteq> []"
    by (simp add: v_def)
  have 1: "load_existing_job_urls None = {}"
    and "csv_reader content = hdr # [row] \<longrightarrow>
        load_existing_job_urls (Some content) =
          {(if py_in view_marker v' then normalize_job_url (py_strip v') else py_strip v') | row' v'.
             row' \<in> set [row] \<and> row_get hdr row' ''job_url'' = Some v' \<and> v' \<noteq> []}"
    using load_existing_job_urls_canonical [of content hdr "[row]"] by blast+
  then have "load_existing_job_urls (Some content) =
          {(if py_in view_marker v' then normalize_job_url (py_strip v') else py_strip v') | row' v'.
             row' \<in> set [row] \<and> row_get hdr row' ''job_url'' = Some v' \<and> v' \<noteq> []}"
    using e(1) by blast
  also have "\<dots> = {''https://www.linkedin.com/jobs/view/42''}"
    using e(2,3,4) ne by auto
  finally show ?thesis
    using 1 unfolding content_def by blast
qed

section \<open>The notifier: what decides its result\<close>

text \<open>
  Claim C3, as the code has it. With a token and a channel, the notifier makes one
  request. It returns true exactly when the request brought a response, whatever its
  status code, whose body decodes to an object with a truthy \<open>ok\<close> field. It returns
  false when the request raises a transport error, when the body is not JSON, and when
  the body is an object whose \<open>ok\<close> field is missing or falsy.
\<close>

theorem send_job_to_slack_by_ok_field:
  assumes "token \<noteq> []" and "ch \<noteq> []"
      and "req = \<lparr>req_channel = ch,
                  req_text = (if company_name job = [] then ''Company'' else company_name job)
                             @ '': '' @ url job,
                  req_token = token\<rparr>"
  shows "snd (send_job_to_slack post job (Some ch) token) = [req]
       \<and> (fst (send_job_to_slack post job (Some ch) token) = Inr True \<longleftrightarrow>
            (\<exists>status kvs v. post req = Response status (Decoded (JObj kvs))
                \<and> map_of (rev kvs) ''ok'' = Some v \<and> truthy v))
       \<and> (post req = RequestFailed
            \<longrightarrow> fst (send_job_to_slack post job (Some ch) token) = Inr False)
       \<and> (post req = Response status Undecodable
            \<longrightarrow> fst (send_job_to_slack post job (Some ch) token) = Inr False)
       \<and> (post req = Response status (Decoded (JObj kvs))
              \<and> (\<forall>v. map_of (rev kvs) ''ok'' = Some v \<longrightarrow> \<not> truthy v)
            \<longrightarrow> fst (send_job_to_slack post job (Some ch) token) = Inr False)"
proof -
  have s: "send_job_to_slack post job (Some ch) token =
      (case post req of
         RequestFailed \<Rightarrow> Inr False
       | Response status Undecodable \<Rightarrow> Inr False
       | Response status (Decoded (JObj kvs)) \<Rightarrow>
           (case map_of (rev kvs) ''ok'' of
              None \<Rightarrow> Inr False
            | Some v \<Rightarrow> Inr (truthy v))
       | Response status (Decoded _) \<Rightarrow> Inl AttributeError,
       [req])"
    using assms by (simp add: send_job_to_slack_def Let_def)
  show ?thesis
  proof (cases "post req")
    case RequestFailed
    then show ?thesis unfolding s by simp
  next
    case (Response st b)
    show ?thesis
    proof (cases b)
      case Undecodable
      then show ?thesis unfolding s using Response by simp
    next
      case (Decoded j)
      show ?thesis
      proof (cases j)
        case (JObj kvs')
        then show ?thesis
          unfolding s using Response Decoded by (auto split: option.splits)
      qed (use Response Decoded in \<open>simp_all add: s\<close>)
    qed
  qed
qed

theorem send_job_to_slack_by_ok_field_witness:
  "snd (send_job_to_slack ok_for_first_post job_2 (Some ''C012345'') ''xoxb-1'') =
     [\<lparr>req_channel = ''C012345'',
       req_text = ''Bolt: https://www.linkedin.com/jobs/view/2'',
       req_token = ''xoxb-1''\<rparr>]
   \<and> fst (send_job_to_slack ok_for_first_post job_2 (Some ''C012345'') ''xoxb-1'') = Inr False
   \<and> fst (send_job_to_slack ok_for_first_post job_1 (Some ''C012345'') ''xoxb-1'') = Inr True"
proof -
  let ?r1 = "\<lparr>req_channel = ''C012345'',
       req_text = ''Acme: https://www.linkedin.com/jobs/view/1'', req_token = ''xoxb-1''\<rparr>"
  let ?r2 = "\<lparr>req_channel = ''C012345'',
       req_text = ''Bolt: https://www.linkedin.com/jobs/view/2'', req_token = ''xoxb-1''\<rparr>"
  have p1: "ok_for_first_post ?r1 = Response 200 (Decoded (JObj [(''ok'', JBool True)]))"
    by (simp add: ok_for_first_post_def)
  have p2: "ok_for_first_post ?r2 = Response 200 (Decoded (JObj [(''ok'', JBool False)]))"
    by (simp add: ok_for_first_post_def)
  have q1: "?r1 = \<lparr>req_channel = ''C012345'',
                  req_text = (if company_name job_1 = [] then ''Company'' else company_name job_1)
                             @ '': '' @ url job_1,
                  req_token = ''xoxb-1''\<rparr>"
    by (simp add: job_1_def)
  have q2: "?r2 = \<lparr>req_channel = ''C012345'',
                  req_text = (if company_name job_2 = [] then ''Company'' else company_name job_2)
                             @ '': '' @ url job_2,
                  req_token = ''xoxb-1''\<rparr>"
    by (simp add: job_2_def)
  have n: "''xoxb-1'' \<noteq> []" "''C012345'' \<noteq> []"
    by simp_all
  note T1 = send_job_to_slack_by_ok_field [OF n q1, of ok_for_first_post 200 "[(''ok'', JBool True)]"]
  note T2 = send_job_to_slack_by_ok_field [OF n q2, of ok_for_first_post 200 "[(''ok'', JBool False)]"]
  have a: "snd (send_job_to_slack ok_for_first_post job_2 (Some ''C012345'') ''xoxb-1'') = [?r2]"
    using T2 by blast
  have b: "fst (send_job_to_slack ok_for_first_post job_2 (Some ''C012345'') ''xoxb-1'') = Inr False"
    using T2 p2 by simp
  have "\<exists>status kvs v. ok_for_first_post ?r1 = Response status (Decoded (JObj kvs))
                \<and> map_of (rev kvs) ''ok'' = Some v \<and> truthy v"
    using p1 by (intro exI [of _ 200] exI [of _ "[(''ok'', JBool True)]"] exI [of _ "JBool True"]) simp
  then have c: "fst (send_job_to_slack ok_for_first_post job_1 (Some ''C012345'') ''xoxb-1'') = Inr True"
    using T1 by blast
  show ?thesis
    using a b c by blast
qed

text \<open>A response with status 500 whose body says \<open>ok\<close> is taken as a success.\<close>

theorem send_job_to_slack_ignores_status:
  "fst (send_job_to_slack server_error_ok_post job_1 (Some ''C012345'') ''xoxb-1'') = Inr True"
  by (simp add: send_job_to_slack_def server_error_ok_post_def job_1_def)

section \<open>The coordinator: what one cycle persists\<close>

lemma post_loop_no_channel:
  assumes "channel_id = None \<or> channel_id = Some []" and "tok \<noteq> []"
  shows "post_loop post channel_id tok posted reqs js = Inr (posted, reqs)"
  using assms by (induction js arbitrary: posted reqs) (auto simp: send_job_to_slack_def)

text \<open>
  Claim C10. When a token is configured and the channel identifier is unset or empty,
  the notifier returns false for every job and makes no request; the cycle then posts
  nothing and leaves the store as it was, whatever jobs were accepted and new.
\<close>

theorem run_once_without_channel:
  assumes "py_strip tok \<noteq> []" and "channel_id = None \<or> channel_id = Some []"
  shows "send_job_to_slack post job channel_id (py_strip tok) = (Inr False, [])
       \<and> run_once st jobs (Some tok) channel_id post =
           Inr \<lparr>store_after = st,
                new_jobs = filter (\<lambda>j. url j \<notin> load_existing_job_urls st) jobs,
                jobs_posted_to_slack = [],
                requests = []\<rparr>"
proof
  show "send_job_to_slack post job channel_id (py_strip tok) = (Inr False, [])"
    using assms by (auto simp: send_job_to_slack_def)
  show "run_once st jobs (Some tok) channel_id post =
           Inr \<lparr>store_after = st,
                new_jobs = filter (\<lambda>j. url j \<notin> load_existing_job_urls st) jobs,
                jobs_posted_to_slack = [],
                requests = []\<rparr>"
    unfolding run_once_def Let_def
    by (simp add: post_loop_no_channel [OF assms(2,1)])
qed

lemma token_example: "py_strip '' xoxb-1 '' = ''xoxb-1''"
  by code_simp

theorem run_once_without_channel_witness:
  "send_job_to_slack (\<lambda>r. Response 200 (Decoded (JObj [(''ok'', JBool True)])))
     \<lparr>url = ''https://www.linkedin.com/jobs/view/1'', company_name = ''Acme''\<rparr> None ''xoxb-1'' =
     (Inr False, [])
   \<and> run_once None [\<lparr>url = ''https://www.linkedin.com/jobs/view/1'', company_name = ''Acme''\<rparr>]
       (Some '' xoxb-1 '') None (\<lambda>r. Response 200 (Decoded (JObj [(''ok'', JBool True)]))) =
     Inr \<lparr>store_after = None,
          new_jobs = [\<lparr>url = ''https://www.linkedin.com/jobs/view/1'', company_name = ''Acme''\<rparr>],
          jobs_posted_to_slack = [],
          requests = []\<rparr>"
  using run_once_without_channel [of "'' xoxb-1 ''" None
      "\<lambda>r. Response 200 (Decoded (JObj [(''ok'', JBool True)]))"
      "\<lparr>url = ''https://www.linkedin.com/jobs/view/1'', company_name = ''Acme''\<rparr>"
      None "[\<lparr>url = ''https://www.linkedin.com/jobs/view/1'', company_name = ''Acme''\<rparr>]"]
  by (simp add: token_example load_existing_job_urls_def)

lemma send_no_exception:
  assumes "\<forall>r status v. post r = Response status (Decoded v) \<longrightarrow> (\<exists>kvs. v = JObj kvs)"
  shows "fst (send_job_to_slack post job channel_id tok) \<noteq> Inl e"
proof (cases channel_id)
  case None
  then show ?thesis by (simp add: send_job_to_slack_def)
next
  case (Some ch)
  show ?thesis
  proof (cases "tok = [] \<or> ch = []")
    case True
    then show ?thesis using Some by (auto simp: send_job_to_slack_def)
  next
    case False
    let ?req = "\<lparr>req_channel = ch,
                  req_text = (if company_name job = [] then ''Company'' else company_name job)
                             @ '': '' @ url job,
                  req_token = tok\<rparr>"
    show ?thesis
    proof (cases "post ?req")
      case RequestFailed
      then show ?thesis using Some False by (simp add: send_job_to_slack_def)
    next
      case (Response status b)
      show ?thesis
      proof (cases b)
        case Undecodable
        then show ?thesis using Some False Response by (simp add: send_job_to_slack_def)
      next
        case (Decoded v)
        then obtain kvs where "v = JObj kvs"
          using assms Response by blast
        then show ?thesis
          using Some False Response Decoded
          by (simp add: send_job_to_slack_def split: option.splits)
      qed
    qed
  qed
qed

lemma post_loop_result:
  assumes "\<forall>j\<in>set js. \<forall>e. fst (send_job_to_slack post j channel_id tok) \<noteq> Inl e"
  shows "\<exists>rs. post_loop post channel_id tok posted reqs js =
           Inr (posted @ filter (\<lambda>j. tok = [] \<or> fst (send_job_to_slack post j channel_id tok) = Inr True) js,
                rs)"
  using assms
proof (induction js arbitrary: posted reqs)
  case Nil
  then show ?case by simp
next
  case (Cons j js)
  have rest: "\<forall>j\<in>set js. \<forall>e. fst (send_job_to_slack post j channel_id tok) \<noteq> Inl e"
    using Cons.prems by simp
  show ?case
  proof (cases "tok = []")
    case True
    then show ?thesis using Cons.IH [OF rest, of "posted @ [j]" reqs] by simp
  next
    case False
    obtain res rs where s: "send_job_to_slack post j channel_id tok = (res, rs)"
      by (cases "send_job_to_slack post j channel_id tok") auto
    have "\<forall>e. res \<noteq> Inl e"
      using Cons.prems s by auto
    then obtain ok where ok: "res = Inr ok"
      by (cases res) auto
    show ?thesis
    proof (cases ok)
      case True
      then show ?thesis
        using False s ok Cons.IH [OF rest, of "posted @ [j]" "reqs @ rs"] by simp
    next
      case False': False
      then show ?thesis
        using False s ok Cons.IH [OF rest, of posted "reqs @ rs"] by simp
    qed
  qed
qed


lemma post_loop_Inr:
  "post_loop post channel_id tok posted reqs js = Inr (p, rs) \<Longrightarrow>
     p = posted @ filter (\<lambda>j. tok = [] \<or> fst (send_job_to_slack post j channel_id tok) = Inr True) js"
proof (induction js arbitrary: posted reqs)
  case Nil
  then show ?case by simp
next
  case (Cons j js)
  show ?case
  proof (cases "tok = []")
    case True
    then show ?thesis using Cons.prems Cons.IH [of "posted @ [j]" reqs] by simp
  next
    case False
    obtain res rs' where s: "send_job_to_slack post j channel_id tok = (res, rs')"
      by (cases "send_job_to_slack post j channel_id tok") auto
    show ?thesis
    proof (cases res)
      case (Inl e)
      then show ?thesis using Cons.prems False s by simp
    next
      case (Inr ok)
      show ?thesis
      proof (cases ok)
        case True
        then show ?thesis
          using Cons.prems False s Inr Cons.IH [of "posted @ [j]" "reqs @ rs'"] by simp
      next
        case False': False
        then show ?thesis
          using Cons.prems False s Inr Cons.IH [of posted "reqs @ rs'"] by simp
      qed
    qed
  qed
qed

text \<open>
  A cycle that completes appends exactly the accepted jobs, in order, whose URL is not
  in the loaded dataset and for which either no token is configured or the notification
  returned true, and writes the store only when that list is not empty; with a token and
  notifications that all fail the store is left as it was. The cycle completes whenever
  every body the channel sends decodes to an object or is not JSON at all.
\<close>

lemma run_once_completed_cycle:
  "((\<forall>r status v. post r = Response status (Decoded v) \<longrightarrow> (\<exists>kvs. v = JObj kvs))
      \<longrightarrow> (\<exists>c. run_once st jobs env_token channel_id post = Inr c))
   \<and> (\<forall>c. run_once st jobs env_token channel_id post = Inr c \<longrightarrow>
         jobs_posted_to_slack c =
           filter (\<lambda>j. url j \<notin> load_existing_job_urls st \<and>
                        (slack_token_of env_token = [] \<or>
                         fst (send_job_to_slack post j channel_id (slack_token_of env_token)) = Inr True))
             jobs
       \<and> store_after c =
           (if jobs_posted_to_slack c = [] then st
            else append_jobs_to_csv (jobs_posted_to_slack c) st)
       \<and> (\<forall>u. u \<in> url ` set (jobs_posted_to_slack c) \<longleftrightarrow>
             (\<exists>j\<in>set jobs. url j = u \<and> u \<notin> load_existing_job_urls st \<and>
                 (slack_token_of env_token = [] \<or>
                  fst (send_job_to_slack post j channel_id (slack_token_of env_token)) = Inr True)))
       \<and> (slack_token_of env_token \<noteq> [] \<and>
            (\<forall>j\<in>set jobs. fst (send_job_to_slack post j channel_id (slack_token_of env_token)) = Inr False)
           \<longrightarrow> store_after c = st))"
proof (intro conjI impI allI)
  let ?tok = "slack_token_of env_token"
  let ?new = "filter (\<lambda>j. url j \<notin> load_existing_job_urls st) jobs"
  let ?del = "\<lambda>j. ?tok = [] \<or> fst (send_job_to_slack post j channel_id ?tok) = Inr True"
  {
    assume objs: "\<forall>r status v. post r = Response status (Decoded v) \<longrightarrow> (\<exists>kvs. v = JObj kvs)"
    have "\<forall>j\<in>set ?new. \<forall>e. fst (send_job_to_slack post j channel_id ?tok) \<noteq> Inl e"
      using send_no_exception [OF objs] by blast
    then obtain rs where
        "post_loop post channel_id ?tok [] [] ?new = Inr ([] @ filter ?del ?new, rs)"
      using post_loop_result [of ?new post channel_id ?tok "[]" "[]"] by blast
    then show "\<exists>c. run_once st jobs env_token channel_id post = Inr c"
      unfolding run_once_def Let_def by simp
  }
  fix c
  assume run: "run_once st jobs env_token channel_id post = Inr c"
  then obtain p rs where loop: "post_loop post channel_id ?tok [] [] ?new = Inr (p, rs)"
      and c: "c = \<lparr>store_after = (if p \<noteq> [] then append_jobs_to_csv p st else st),
                    new_jobs = ?new, jobs_posted_to_slack = p, requests = rs\<rparr>"
    unfolding run_once_def Let_def by (auto split: sum.splits)
  have p: "p = filter ?del ?new"
    using post_loop_Inr [OF loop] by simp
  show posted: "jobs_posted_to_slack c =
      filter (\<lambda>j. url j \<notin> load_existing_job_urls st \<and> ?del j) jobs"
    unfolding c p by (simp add: conj_commute)
  show "store_after c =
      (if jobs_posted_to_slack c = [] then st else append_jobs_to_csv (jobs_posted_to_slack c) st)"
    unfolding c by simp
  show "u \<in> url ` set (jobs_posted_to_slack c) \<longleftrightarrow>
      (\<exists>j\<in>set jobs. url j = u \<and> u \<notin> load_existing_job_urls st \<and> ?del j)" for u
    unfolding posted by auto
  assume "?tok \<noteq> [] \<and>
      (\<forall>j\<in>set jobs. fst (send_job_to_slack post j channel_id ?tok) = Inr False)"
  then have "p = []"
    unfolding p by (auto simp: filter_empty_conv)
  then show "store_after c = st"
    unfolding c by simp
qed

lemma ok_for_first_post_objects:
  "\<forall>r status v. ok_for_first_post r = Response status (Decoded v) \<longrightarrow> (\<exists>kvs. v = JObj kvs)"
  by (auto simp: ok_for_first_post_def split: if_splits)

lemma failing_post_objects:
  "\<forall>r status v. failing_post r = Response status (Decoded v) \<longrightarrow> (\<exists>kvs. v = JObj kvs)"
  by (simp add: failing_post_def)

lemma delivery_example:
  "filter (\<lambda>j. url j \<notin> load_existing_job_urls None \<and>
                        (slack_token_of (Some '' xoxb-1 '') = [] \<or>
                         fst (send_job_to_slack ok_for_first_post j (Some ''C012345'')
                                (slack_token_of (Some '' xoxb-1 ''))) = Inr True))
      [job_1, job_2] = [job_1]"
  by code_simp

lemma failing_example:
  "slack_token_of (Some '' xoxb-1 '') \<noteq> [] \<and>
     (\<forall>j\<in>set [job_1]. fst (send_job_to_slack failing_post j (Some ''C012345'')
                                (slack_token_of (Some '' xoxb-1 ''))) = Inr False)"
  by code_simp

lemma append_example:
  "append_jobs_to_csv [job_1] None =
     Some (''company,job_url'' @ [CR, LF] @ ''Acme,https://www.linkedin.com/jobs/view/1'' @ [CR, LF])"
  by code_simp

lemma run_once_completed_cycle_example:
  "(\<exists>c. run_once None [job_1, job_2] (Some '' xoxb-1 '') (Some ''C012345'') ok_for_first_post = Inr c
       \<and> jobs_posted_to_slack c = [job_1]
       \<and> store_after c = Some (''company,job_url'' @ [CR, LF] @ ''Acme,https://www.linkedin.com/jobs/view/1'' @ [CR, LF]))
   \<and> (\<exists>c. run_once None [job_1] (Some '' xoxb-1 '') (Some ''C012345'') failing_post = Inr c
       \<and> store_after c = None)"
proof
  note T = run_once_completed_cycle [where post = ok_for_first_post and st = None
      and jobs = "[job_1, job_2]" and env_token = "Some '' xoxb-1 ''"
      and channel_id = "Some ''C012345''"]
  obtain c where c: "run_once None [job_1, job_2] (Some '' xoxb-1 '') (Some ''C012345'') ok_for_first_post = Inr c"
    using T ok_for_first_post_objects by blast
  have c2: "jobs_posted_to_slack c =
           filter (\<lambda>j. url j \<notin> load_existing_job_urls None \<and>
                        (slack_token_of (Some '' xoxb-1 '') = [] \<or>
                         fst (send_job_to_slack ok_for_first_post j (Some ''C012345'')
                                (slack_token_of (Some '' xoxb-1 ''))) = Inr True))
             [job_1, job_2]"
    and c3: "store_after c =
           (if jobs_posted_to_slack c = [] then None
            else append_jobs_to_csv (jobs_posted_to_slack c) None)"
    using T c by blast+
  have p: "jobs_posted_to_slack c = [job_1]"
    using c2 delivery_example by simp
  have "store_after c = Some (''company,job_url'' @ [CR, LF] @ ''Acme,https://www.linkedin.com/jobs/view/1'' @ [CR, LF])"
    unfolding c3 p using append_example by simp
  then show "\<exists>c. run_once None [job_1, job_2] (Some '' xoxb-1 '') (Some ''C012345'') ok_for_first_post = Inr c
       \<and> jobs_posted_to_slack c = [job_1]
       \<and> store_after c = Some (''company,job_url'' @ [CR, LF] @ ''Acme,https://www.linkedin.com/jobs/view/1'' @ [CR, LF])"
    using c p by blast
next
  note T = run_once_completed_cycle [where post = failing_post and st = None
      and jobs = "[job_1]" and env_token = "Some '' xoxb-1 ''"
      and channel_id = "Some ''C012345''"]
  obtain c where c: "run_once None [job_1] (Some '' xoxb-1 '') (Some ''C012345'') failing_post = Inr c"
    using T failing_post_objects by blast
  have "slack_token_of (Some '' xoxb-1 '') \<noteq> [] \<and>
            (\<forall>j\<in>set [job_1]. fst (send_job_to_slack failing_post j (Some ''C012345'')
                                (slack_token_of (Some '' xoxb-1 ''))) = Inr False)
           \<longrightarrow> store_after c = None"
    using T c by blast
  then have "store_after c = None"
    using failing_example by blast
  then show "\<exists>c. run_once None [job_1] (Some '' xoxb-1 '') (Some ''C012345'') failing_post = Inr c
       \<and> store_after c = None"
    using c by blast
qed

text \<open>
  Claim C1. The claim is that in every cycle a job URL is appended to the store exactly
  when its record was accepted, is not in the loaded dataset, and either no token is
  configured or its notification succeeded. The code does not keep this: here the
  notification of the first job succeeds, the channel answers the second job with a JSON
  array, \<open>data.get\<close> raises \<open>AttributeError\<close> out of \<open>send_job_to_slack\<close>, and the
  cycle ends before the store is written, so the notified first job is not appended.
\<close>

theorem run_once_loses_delivered_job:
  "fst (send_job_to_slack ok_then_array_post job_1 (Some ''C012345'') ''xoxb-1'') = Inr True
   \<and> url job_1 \<notin> load_existing_job_urls None
   \<and> run_once None [job_1, job_2] (Some ''xoxb-1'') (Some ''C012345'') ok_then_array_post =
       Inl AttributeError"
  by code_simp

section \<open>Running the cycle twice\<close>

lemma post_loop_no_token: "post_loop post channel_id [] posted reqs js = Inr (posted @ js, reqs)"
  by (induction js arbitrary: posted) auto

lemma run_once_no_token:
  assumes "slack_token_of env_token = []"
  shows "run_once st jobs env_token channel_id post =
     Inr \<lparr>store_after = (if filter (\<lambda>j. url j \<notin> load_existing_job_urls st) jobs \<noteq> []
                         then append_jobs_to_csv (filter (\<lambda>j. url j \<notin> load_existing_job_urls st) jobs) st
                         else st),
          new_jobs = filter (\<lambda>j. url j \<notin> load_existing_job_urls st) jobs,
          jobs_posted_to_slack = filter (\<lambda>j. url j \<notin> load_existing_job_urls st) jobs,
          requests = []\<rparr>"
  unfolding run_once_def Let_def assms by (simp add: post_loop_no_token)

lemma row_get_job_row: "row_get [''company'', ''job_url''] (job_row j) ''job_url'' = Some (url j)"
  by (simp add: row_get_def job_row_def)

lemma fold_add_job_rows:
  "fold (add_row [''company'', ''job_url'']) (map job_row js) S =
     S \<union> {stored_identity (url j) | j. j \<in> set js \<and> url j \<noteq> []}"
  by (induction js arbitrary: S) (auto simp: add_row_eq row_get_job_row)

lemma written_jobs: "concat (map (\<lambda>job. writerow (job_row job)) js) = concat (map writerow (map job_row js))"
  by (simp add: comp_def)

text \<open>A store that the writer of the program wrote, header first, is read back as
  written, and what is appended to it is read as further records.\<close>

lemma written_store_complete:
  "csv_reader (concat (map writerow ([''company'', ''job_url''] # rows))) =
     [''company'', ''job_url''] # rows
   \<and> (\<forall>t. csv_reader (concat (map writerow ([''company'', ''job_url''] # rows)) @ t) =
          csv_reader (concat (map writerow ([''company'', ''job_url''] # rows))) @ csv_reader t)"
  using csv_reader_written [of "[''company'', ''job_url''] # rows"] by simp

lemma load_after_append:
  assumes "st = None \<or>
           (\<exists>text rows. st = Some text \<and> csv_reader text = [''company'', ''job_url''] # rows \<and>
              (\<forall>t. csv_reader (text @ t) = csv_reader text @ csv_reader t))"
  shows "load_existing_job_urls (append_jobs_to_csv js st) =
           load_existing_job_urls st \<union> {stored_identity (url j) | j. j \<in> set js \<and> url j \<noteq> []}"
  using assms
proof
  assume "st = None"
  then have "append_jobs_to_csv js st =
      Some (concat (map writerow ([''company'', ''job_url''] # map job_row js)))"
    by (simp add: append_jobs_to_csv_def written_jobs)
  then show ?thesis
    using \<open>st = None\<close> csv_reader_written(2) [of "[''company'', ''job_url''] # map job_row js"]
    by (simp add: load_existing_job_urls_def fold_add_job_rows)
next
  assume "\<exists>text rows. st = Some text \<and> csv_reader text = [''company'', ''job_url''] # rows \<and>
              (\<forall>t. csv_reader (text @ t) = csv_reader text @ csv_reader t)"
  then obtain content rows where st: "st = Some content"
      and rd: "csv_reader content = [''company'', ''job_url''] # rows"
      and ext: "\<forall>t. csv_reader (content @ t) = csv_reader content @ csv_reader t"
    by blast
  have "csv_reader (content @ concat (map writerow (map job_row js))) =
          [''company'', ''job_url''] # rows @ map job_row js"
    using ext rd csv_reader_written(2) [of "map job_row js"] by simp
  then show ?thesis
    using st rd by (simp add: append_jobs_to_csv_def written_jobs load_existing_job_urls_def
        fold_add_job_rows)
qed

lemma stored_identity_stable:
  assumes "py_strip u = u" and "normalize_job_url u = u"
  shows "stored_identity u = u"
  using assms by (simp add: stored_identity_def Let_def)

text \<open>
  Claim C6, as the code has it. Let the store be absent, or be a file that the reader
  reads as the header row \<open>company, job_url\<close> followed by rows and that ends where a
  record ends (whatever is appended to it is read as further records: the file ends with
  a line end outside a quoted field, as every file that the program wrote does). Let no
  token be configured, and let every discovered URL be non-empty, free of surrounding
  white space and a fixed point of the canonicalizer (as the URLs of the discovery are).
  Then a second cycle over the same discovery result finds no new job, posts nothing and
  leaves the store as the first cycle left it.
\<close>

theorem run_once_twice_appends_once:
  assumes "st = None \<or>
           (\<exists>text rows. st = Some text \<and> csv_reader text = [''company'', ''job_url''] # rows \<and>
              (\<forall>t. csv_reader (text @ t) = csv_reader text @ csv_reader t))"
      and "slack_token_of env_token = []"
      and "\<forall>j\<in>set jobs. url j \<noteq> [] \<and> py_strip (url j) = url j \<and> normalize_job_url (url j) = url j"
  shows "\<exists>c1 c2. run_once st jobs env_token channel_id post = Inr c1
       \<and> jobs_posted_to_slack c1 = filter (\<lambda>j. url j \<notin> load_existing_job_urls st) jobs
       \<and> run_once (store_after c1) jobs env_token channel_id post = Inr c2
       \<and> new_jobs c2 = []
       \<and> jobs_posted_to_slack c2 = []
       \<and> store_after c2 = store_after c1"
proof -
  let ?new = "filter (\<lambda>j. url j \<notin> load_existing_job_urls st) jobs"
  let ?st1 = "if ?new \<noteq> [] then append_jobs_to_csv ?new st else st"
  let ?c1 = "\<lparr>store_after = ?st1, new_jobs = ?new, jobs_posted_to_slack = ?new, requests = []\<rparr>"
  have r1: "run_once st jobs env_token channel_id post = Inr ?c1"
    by (rule run_once_no_token [OF assms(2)])
  have known: "url j \<in> load_existing_job_urls ?st1" if j: "j \<in> set jobs" for j
  proof (cases "url j \<in> load_existing_job_urls st")
    case True
    then show ?thesis by (auto simp: load_after_append [OF assms(1)])
  next
    case False
    then have jn: "j \<in> set ?new" using j by simp
    have ne: "?new \<noteq> []"
      using j False by (auto simp: filter_empty_conv)
    have "stored_identity (url j) = url j" "url j \<noteq> []"
      using assms(3) j stored_identity_stable by auto
    then have "url j \<in> {stored_identity (url j') | j'. j' \<in> set ?new \<and> url j' \<noteq> []}"
      using jn by force
    then show ?thesis
      using ne by (simp add: load_after_append [OF assms(1)])
  qed
  then have new2: "filter (\<lambda>j. url j \<notin> load_existing_job_urls ?st1) jobs = []"
    by (simp add: filter_empty_conv)
  let ?c2 = "\<lparr>store_after = ?st1, new_jobs = [], jobs_posted_to_slack = [], requests = []\<rparr>"
  have r2: "run_once ?st1 jobs env_token channel_id post = Inr ?c2"
    unfolding run_once_no_token [OF assms(2), of ?st1 jobs channel_id post] new2 by simp
  show ?thesis
    by (rule exI [of _ ?c1], rule exI [of _ ?c2]) (use r1 r2 in simp)
qed

lemma job_1_stable:
  "url job_1 \<noteq> [] \<and> py_strip (url job_1) = url job_1 \<and> normalize_job_url (url job_1) = url job_1"
  by code_simp

lemma header_file_example:
  "''company,job_url'' @ [CR, LF] = concat (map writerow ([''company'', ''job_url''] # []))"
  by code_simp

lemma twice_example:
  "run_once (Some (''company,job_url'' @ [CR, LF])) [job_1] None None failing_post =
     Inr \<lparr>store_after = Some (''company,job_url'' @ [CR, LF] @
                               ''Acme,https://www.linkedin.com/jobs/view/1'' @ [CR, LF]),
          new_jobs = [job_1], jobs_posted_to_slack = [job_1], requests = []\<rparr>"
  by code_simp

theorem run_once_twice_appends_once_witness:
  "\<exists>c1 c2. run_once (Some (''company,job_url'' @ [CR, LF])) [job_1] None None failing_post = Inr c1
       \<and> store_after c1 = Some (''company,job_url'' @ [CR, LF] @
                                 ''Acme,https://www.linkedin.com/jobs/view/1'' @ [CR, LF])
       \<and> run_once (store_after c1) [job_1] None None failing_post = Inr c2
       \<and> jobs_posted_to_slack c2 = []
       \<and> store_after c2 = store_after c1"
proof -
  define content where "content = ''company,job_url'' @ [CR, LF]"
  have w: "content = concat (map writerow ([''company'', ''job_url''] # []))"
    unfolding content_def by (rule header_file_example)
  have h1: "Some content = None \<or>
           (\<exists>text' rows. Some content = Some text' \<and> csv_reader text' = [''company'', ''job_url''] # rows \<and>
              (\<forall>t. csv_reader (text' @ t) = csv_reader text' @ csv_reader t))"
    using written_store_complete [of "[]"] unfolding w by blast
  have h2: "slack_token_of None = []"
    by (simp add: py_strip_def py_rstrip_def)
  have h3: "\<forall>j\<in>set [job_1]. url j \<noteq> [] \<and> py_strip (url j) = url j \<and> normalize_job_url (url j) = url j"
    using job_1_stable by simp
  obtain c1 c2 where c: "run_once (Some content) [job_1] None None failing_post = Inr c1"
      "run_once (store_after c1) [job_1] None None failing_post = Inr c2"
      "jobs_posted_to_slack c2 = []" "store_after c2 = store_after c1"
    using run_once_twice_appends_once [OF h1 h2 h3, of None failing_post] by blast
  have "store_after c1 = Some (''company,job_url'' @ [CR, LF] @
                                 ''Acme,https://www.linkedin.com/jobs/view/1'' @ [CR, LF])"
    using c(1) twice_example unfolding content_def by simp
  then show ?thesis
    using c unfolding content_def by blast
qed

text \<open>A store file that exists but is empty: the first cycle writes a row without a
  header, the second cycle reads that row as the header and appends the job again.\<close>

theorem run_once_twice_on_empty_file:
  "run_once (Some []) [job_1] None None failing_post =
     Inr \<lparr>store_after = Some (''Acme,https://www.linkedin.com/jobs/view/1'' @ [CR, LF]),
          new_jobs = [job_1], jobs_posted_to_slack = [job_1], requests = []\<rparr>
   \<and> run_once (Some (''Acme,https://www.linkedin.com/jobs/view/1'' @ [CR, LF])) [job_1]
       None None failing_post =
     Inr \<lparr>store_after = Some (''Acme,https://www.linkedin.com/jobs/view/1'' @ [CR, LF] @
                               ''Acme,https://www.linkedin.com/jobs/view/1'' @ [CR, LF]),
          new_jobs = [job_1], jobs_posted_to_slack = [job_1], requests = []\<rparr>"
  by code_simp

text \<open>A header that is not followed by a line end: the first row written is joined to
  the header line, no \<open>job_url\<close> column is left, and the second cycle appends the job
  again.\<close>

lemma run_once_twice_on_open_header:
  "run_once (Some ''company,job_url'') [job_1] None None failing_post =
     Inr \<lparr>store_after = Some (''company,job_urlAcme,https://www.linkedin.com/jobs/view/1'' @ [CR, LF]),
          new_jobs = [job_1], jobs_posted_to_slack = [job_1], requests = []\<rparr>
   \<and> csv_reader (''company,job_urlAcme,https://www.linkedin.com/jobs/view/1'' @ [CR, LF]) =
       [[''company'', ''job_urlAcme'', ''https://www.linkedin.com/jobs/view/1'']]
   \<and> run_once (Some (''company,job_urlAcme,https://www.linkedin.com/jobs/view/1'' @ [CR, LF])) [job_1]
       None None failing_post =
     Inr \<lparr>store_after = Some (''company,job_urlAcme,https://www.linkedin.com/jobs/view/1'' @ [CR, LF] @
                               ''Acme,https://www.linkedin.com/jobs/view/1'' @ [CR, LF]),
          new_jobs = [job_1], jobs_posted_to_slack = [job_1], requests = []\<rparr>"
  by code_simp

end
